theory Spec2Isabelle
  imports Complex_Main "HOL-Library.Word" "HOL-Library.Multiset"
begin

unbundle bit_operations_syntax

section \<open>JavaScript strings\<close>

text \<open>
  A JavaScript string is a sequence of UTF-16 code units. The model uses \<open>string\<close>
  (\<open>char list\<close>), so it covers the strings whose code units are below 256, read as
  Latin-1; \<open>length\<close> is \<open>.length\<close>. Every string operation of the sources maps such
  strings to such strings.

  \<open>isSpace\<close> is the class \<open>\s\<close> of a regular expression, which is also the set
  \<open>trim()\<close> strips (white space and line terminators): TAB, LF, VT, FF, CR, SPACE and
  NBSP are its members below 256.
\<close>

definition isSpace :: "char \<Rightarrow> bool" where
  "isSpace c = (of_char c \<in> {9, 10, 11, 12, 13, 32, 160 :: nat})"

definition trimStart :: "string \<Rightarrow> string" where
  "trimStart s = dropWhile isSpace s"

definition trimEnd :: "string \<Rightarrow> string" where
  "trimEnd s = rev (dropWhile isSpace (rev s))"

definition trim :: "string \<Rightarrow> string" where
  "trim s = trimEnd (trimStart s)"

text \<open>
  \<open>s.split(/[C]+/)\<close> for a character class \<open>C\<close>: the pieces between the maximal runs of
  separator characters. A run at the start or the end leaves an empty piece there, and
  the empty string splits into one empty piece.
\<close>

function splitOn :: "(char \<Rightarrow> bool) \<Rightarrow> string \<Rightarrow> string list" where
  "splitOn P [] = [[]]"
| "splitOn P (c # cs) =
     (if P c then [] # splitOn P (dropWhile P cs)
      else (case splitOn P cs of [] \<Rightarrow> [[c]] | p # ps \<Rightarrow> (c # p) # ps))"
  by pat_completeness auto
termination
  by (relation "measure (\<lambda>(P, s). length s)")
     (auto simp: length_dropWhile_le less_Suc_eq_le)

section \<open>The chunker (\<open>src/lib/vectorUtils.ts\<close>, \<open>chunkText\<close>)\<close>

definition isTerminator :: "char \<Rightarrow> bool" where
  "isTerminator c = (c = CHR ''.'' \<or> c = CHR ''!'' \<or> c = CHR ''?'')"

text \<open>\<open>text.split(/[.!?]+/).filter(s => s.trim().length > 0)\<close>\<close>

definition sentences :: "string \<Rightarrow> string list" where
  "sentences text = filter (\<lambda>s. length (trim s) > 0) (splitOn isTerminator text)"

text \<open>
  The \<open>for\<close> loop of \<open>chunkText\<close> over the remaining sentences, with the two variables it
  updates: \<open>chunks\<close> and \<open>currentChunk\<close>. \<open>maxChunkSize\<close> is an integer.
\<close>

fun chunkLoop :: "int \<Rightarrow> string list \<Rightarrow> string list \<Rightarrow> string \<Rightarrow> string list \<times> string" where
  "chunkLoop maxChunkSize [] chunks currentChunk = (chunks, currentChunk)"
| "chunkLoop maxChunkSize (sentence # rest) chunks currentChunk =
     (if int (length currentChunk) + int (length sentence) > maxChunkSize
         \<and> length currentChunk > 0
      then chunkLoop maxChunkSize rest (chunks @ [trim currentChunk]) sentence
      else chunkLoop maxChunkSize rest chunks (currentChunk @ sentence @ ''.''))"

definition chunkText :: "string \<Rightarrow> int \<Rightarrow> string list" where
  "chunkText text maxChunkSize =
     (case chunkLoop maxChunkSize (sentences text) [] [] of
        (chunks, currentChunk) \<Rightarrow>
          if length (trim currentChunk) > 0 then chunks @ [trim currentChunk] else chunks)"

text \<open>The separator the chunker adds after a sentence is the full stop.\<close>

definition removeSeparators :: "string \<Rightarrow> string" where
  "removeSeparators s = filter (\<lambda>c. c \<noteq> CHR ''.'') s"

text \<open>
  \<open>groupsOf chunks gs\<close>: the chunks are, one for one and up to the added separators and
  the white space around them, the concatenations of the non-empty groups \<open>gs\<close> of
  sentences.
\<close>

definition groupsOf :: "string list \<Rightarrow> string list list \<Rightarrow> bool" where
  "groupsOf chunks gs \<longleftrightarrow>
     map (\<lambda>c. trim (removeSeparators c)) chunks = map (\<lambda>g. trim (concat g)) gs \<and> [] \<notin> set gs"

text \<open>
  \<open>boundedChunk m ss c\<close>: the chunk \<open>c\<close> has at most \<open>m + 1\<close> characters, or it is one
  sentence of \<open>ss\<close>, trimmed, with or without the added full stop.
\<close>

definition boundedChunk :: "int \<Rightarrow> string list \<Rightarrow> string \<Rightarrow> bool" where
  "boundedChunk m ss c \<longleftrightarrow>
     int (length c) \<le> m + 1 \<or> (\<exists>s \<in> set ss. c = trim s \<or> c = trim (s @ ''.''))"

section \<open>More string operations\<close>

text \<open>
  \<open>toLowerCase()\<close> on Latin-1: the letters \<open>A\<close> to \<open>Z\<close> and the accented capitals
  U+00C0 to U+00DE (without the multiplication sign U+00D7) move up by 32.
\<close>

definition lowerChar :: "char \<Rightarrow> char" where
  "lowerChar c =
     (let n = (of_char c :: nat)
      in if (65 \<le> n \<and> n \<le> 90) \<or> (192 \<le> n \<and> n \<le> 222 \<and> n \<noteq> 215)
         then char_of (n + 32) else c)"

definition toLowerCase :: "string \<Rightarrow> string" where
  "toLowerCase s = map lowerChar s"

text \<open>\<open>s.startsWith(t)\<close> and \<open>s.includes(t)\<close>: \<open>t\<close> occurs in \<open>s\<close> as a substring.\<close>

fun startsWith :: "string \<Rightarrow> string \<Rightarrow> bool" where
  "startsWith s [] = True"
| "startsWith [] (c # t) = False"
| "startsWith (d # s) (c # t) = (d = c \<and> startsWith s t)"

fun includesStr :: "string \<Rightarrow> string \<Rightarrow> bool" where
  "includesStr [] t = (t = [])"
| "includesStr (c # s) t = (startsWith (c # s) t \<or> includesStr s t)"

text \<open>
  \<open>xs.sort(cmp)\<close> with a comparison function: the sort is stable, and an element \<open>a\<close>
  stays before \<open>b\<close> when \<open>cmp(a, b) \<le> 0\<close>.
\<close>

fun insertBy :: "('a \<Rightarrow> 'a \<Rightarrow> int) \<Rightarrow> 'a \<Rightarrow> 'a list \<Rightarrow> 'a list" where
  "insertBy cmp x [] = [x]"
| "insertBy cmp x (y # ys) = (if cmp x y \<le> 0 then x # y # ys else y # insertBy cmp x ys)"

definition sortBy :: "('a \<Rightarrow> 'a \<Rightarrow> int) \<Rightarrow> 'a list \<Rightarrow> 'a list" where
  "sortBy cmp xs = foldr (insertBy cmp) xs []"

text \<open>A value of type \<open>string | undefined\<close> is truthy when it is a non-empty string.\<close>

definition truthy :: "string option \<Rightarrow> bool" where
  "truthy v = (case v of None \<Rightarrow> False | Some s \<Rightarrow> s \<noteq> [])"

section \<open>The local store (\<open>localStorage.ts\<close>)\<close>

text \<open>The interface \<open>LocalDocument\<close>; its fields carry the prefix \<open>doc_\<close> here.\<close>

record LocalDocument =
  doc_id :: string
  doc_fileName :: string
  doc_fileType :: string
  doc_content :: string
  doc_timestamp :: string
  doc_userId :: "string option"

text \<open>
  The item \<open>pulse-documents\<close> of the browser's \<open>localStorage\<close>: absent, or the list of
  documents that \<open>storeDocumentLocal\<close>, its only writer, has serialised there.
\<close>

type_synonym storage = "LocalDocument list option"

definition getStoredDocuments :: "storage \<Rightarrow> LocalDocument list" where
  "getStoredDocuments stored = (case stored of None \<Rightarrow> [] | Some docs \<Rightarrow> docs)"

text \<open>The parts of \<open>searchDocumentsLocal\<close>, in the order of the source.\<close>

definition filteredDocs :: "string option \<Rightarrow> storage \<Rightarrow> LocalDocument list" where
  "filteredDocs userId stored =
     (let documents = getStoredDocuments stored
      in if truthy userId then filter (\<lambda>doc. doc_userId doc = userId) documents else documents)"

definition searchTerms :: "string \<Rightarrow> string list" where
  "searchTerms query = splitOn isSpace (toLowerCase query)"

definition searchText :: "LocalDocument \<Rightarrow> string" where
  "searchText doc = toLowerCase (doc_fileName doc @ '' '' @ doc_content doc)"

definition matchingDocs :: "string \<Rightarrow> string option \<Rightarrow> storage \<Rightarrow> LocalDocument list" where
  "matchingDocs query userId stored =
     filter (\<lambda>doc. list_ex (\<lambda>term. includesStr (searchText doc) term) (searchTerms query))
       (filteredDocs userId stored)"

text \<open>\<open>searchTerms.filter(term => ....includes(term)).length\<close>\<close>

definition termMatches :: "string list \<Rightarrow> LocalDocument \<Rightarrow> nat" where
  "termMatches terms doc = length (filter (\<lambda>term. includesStr (searchText doc) term) terms)"

definition searchDocumentsLocal :: "string \<Rightarrow> string option \<Rightarrow> storage \<Rightarrow> LocalDocument list" where
  "searchDocumentsLocal query userId stored =
     sortBy (\<lambda>a b. int (termMatches (searchTerms query) b) - int (termMatches (searchTerms query) a))
       (matchingDocs query userId stored)"

definition getUserDocumentsLocal :: "string option \<Rightarrow> storage \<Rightarrow> LocalDocument list" where
  "getUserDocumentsLocal userId stored =
     (let documents = getStoredDocuments stored
      in if truthy userId then filter (\<lambda>doc. doc_userId doc = userId) documents else documents)"

text \<open>
  The ranking as the specification words it: by the number of distinct query tokens
  found.
\<close>

definition distinctTermMatches :: "string list \<Rightarrow> LocalDocument \<Rightarrow> nat" where
  "distinctTermMatches terms doc = termMatches (remdups terms) doc"

text \<open>Two stored documents for the examples: one holds \<open>bar\<close>, the other \<open>foo\<close>.\<close>

definition docBar :: LocalDocument where
  "docBar = \<lparr>doc_id = ''b.txt_1'', doc_fileName = ''b.txt'', doc_fileType = ''text/plain'',
     doc_content = ''Bar.'', doc_timestamp = ''2024-01-01T00:00:00.000Z'',
     doc_userId = Some ''current-user''\<rparr>"

definition docFoo :: LocalDocument where
  "docFoo = \<lparr>doc_id = ''a.txt_2'', doc_fileName = ''a.txt'', doc_fileType = ''text/plain'',
     doc_content = ''Foo.'', doc_timestamp = ''2024-01-02T00:00:00.000Z'',
     doc_userId = Some ''current-user''\<rparr>"

section \<open>The fallback search of the user interface\<close>

text \<open>A thrown value: an \<open>Error\<close> with its message.\<close>

datatype error = Error string

text \<open>
  A search result as the user interface reads it: a score and the metadata of the match.
  The chat hook builds results without a timestamp.
\<close>

record Metadata =
  meta_fileName :: string
  meta_fileType :: string
  meta_content :: string
  meta_timestamp :: "string option"

record SearchResult =
  score :: real
  metadata :: Metadata

text \<open>
  \<open>handleSearch\<close> of \<open>DocumentManager.tsx\<close>: the value it passes to \<open>setSearchResults\<close>.
  \<open>remote\<close> is the outcome of \<open>await searchDocuments(searchQuery, 10, 'current-user')\<close>,
  the remote results or the thrown error.
\<close>

definition handleSearch :: "string \<Rightarrow> error + SearchResult list \<Rightarrow> storage \<Rightarrow> SearchResult list" where
  "handleSearch searchQuery remote stored =
     (if trim searchQuery = [] then []
      else case remote of
        Inr results \<Rightarrow> results
      | Inl pineconeError \<Rightarrow>
          (let localResults = searchDocumentsLocal searchQuery (Some ''current-user'') stored
           in map (\<lambda>(index, doc).
                \<lparr>score = max (0.9 - real index * 0.1) 0.1,
                 metadata = \<lparr>meta_fileName = doc_fileName doc, meta_fileType = doc_fileType doc,
                   meta_content = take 200 (doc_content doc)
                     @ (if length (doc_content doc) > 200 then ''...'' else ''''),
                   meta_timestamp = Some (doc_timestamp doc)\<rparr>\<rparr>)
              (enumerate 0 (take 10 localResults))))"

text \<open>
  \<open>handleMockResponse\<close> of \<open>useChat.ts\<close>: the value of \<open>searchResults\<close> after the document
  search. \<open>remote\<close> is the outcome of \<open>await searchDocuments(userContent, 3, 'current-user')\<close>.
\<close>

definition mockSearchResults :: "string \<Rightarrow> error + SearchResult list \<Rightarrow> storage \<Rightarrow> SearchResult list" where
  "mockSearchResults userContent remote stored =
     (let terms = toLowerCase userContent
      in if includesStr terms ''document'' \<or> includesStr terms ''file''
            \<or> includesStr terms ''tell me about'' \<or> includesStr terms ''what''
            \<or> includesStr terms ''explain'' \<or> includesStr terms ''analyze''
         then case remote of
           Inr results \<Rightarrow> results
         | Inl pineconeError \<Rightarrow>
             (let localResults = searchDocumentsLocal userContent (Some ''current-user'') stored
              in map (\<lambda>(index, doc).
                   \<lparr>score = max (0.9 - real index * 0.1) 0.1,
                    metadata = \<lparr>meta_fileName = doc_fileName doc, meta_fileType = doc_fileType doc,
                      meta_content = doc_content doc, meta_timestamp = None\<rparr>\<rparr>)
                 (enumerate 0 (take 3 localResults)))
         else [])"

section \<open>JavaScript numbers\<close>

text \<open>
  The components of an embedding are numbers: a real number or \<open>NaN\<close>. Arithmetic is
  exact on the reals (rounding is not modelled) and \<open>NaN\<close> is absorbing. No infinity is
  needed: every division of \<open>generateEmbedding\<close> has a positive denominator, except
  \<open>0 / 0\<close> for the average word length of a text without words, which is \<open>NaN\<close>.
\<close>

datatype jsnum = NaN | Num real

fun jsAdd :: "jsnum \<Rightarrow> jsnum \<Rightarrow> jsnum" where
  "jsAdd (Num a) (Num b) = Num (a + b)"
| "jsAdd _ _ = NaN"

fun jsMul :: "jsnum \<Rightarrow> jsnum \<Rightarrow> jsnum" where
  "jsMul (Num a) (Num b) = Num (a * b)"
| "jsMul _ _ = NaN"

text \<open>\<open>Math.sqrt\<close>, the comparison \<open>x > 0\<close>, and \<open>x / n\<close> for a positive real \<open>n\<close>.\<close>

fun jsSqrt :: "jsnum \<Rightarrow> jsnum" where
  "jsSqrt (Num a) = (if a < 0 then NaN else Num (sqrt a))"
| "jsSqrt NaN = NaN"

fun jsPositive :: "jsnum \<Rightarrow> bool" where
  "jsPositive (Num a) = (a > 0)"
| "jsPositive NaN = False"

fun jsDivBy :: "real \<Rightarrow> jsnum \<Rightarrow> jsnum" where
  "jsDivBy n (Num a) = Num (a / n)"
| "jsDivBy n NaN = NaN"

section \<open>The embedder (\<open>src/lib/vectorUtils.ts\<close>, \<open>generateEmbedding\<close>)\<close>

text \<open>\<open>\w\<close> of a regular expression: a letter, a digit or the underscore.\<close>

definition isWordChar :: "char \<Rightarrow> bool" where
  "isWordChar c =
     (let n = (of_char c :: nat)
      in (48 \<le> n \<and> n \<le> 57) \<or> (65 \<le> n \<and> n \<le> 90) \<or> n = 95 \<or> (97 \<le> n \<and> n \<le> 122))"

text \<open>\<open>s.replace(/\s+/g, ' ')\<close>\<close>

function collapseSpaces :: "string \<Rightarrow> string" where
  "collapseSpaces [] = []"
| "collapseSpaces (c # cs) =
     (if isSpace c then CHR '' '' # collapseSpaces (dropWhile isSpace cs)
      else c # collapseSpaces cs)"
  by pat_completeness auto
termination
  by (relation "measure length") (auto simp: length_dropWhile_le less_Suc_eq_le)

definition cleanText :: "string \<Rightarrow> string" where
  "cleanText text =
     trim (collapseSpaces
       (map (\<lambda>c. if isWordChar c \<or> isSpace c then c else CHR '' '') (toLowerCase text)))"

definition embeddingWords :: "string \<Rightarrow> string list" where
  "embeddingWords text = filter (\<lambda>word. length word > 2) (splitOn isSpace (cleanText text))"

text \<open>\<open>[...new Set(words)]\<close>: the distinct words in the order of their first occurrence.\<close>

function uniqueWords :: "string list \<Rightarrow> string list" where
  "uniqueWords [] = []"
| "uniqueWords (w # ws) = w # uniqueWords (removeAll w ws)"
  by pat_completeness auto
termination
  by (relation "measure length") (auto simp: length_removeAll_less_eq less_Suc_eq_le)

text \<open>
  \<open>wordFreq\<close> and \<open>freq\<close> are object literals, so they inherit from \<open>Object.prototype\<close>. For
  the words \<open>constructor\<close> and \<open>__proto__\<close> the first read \<open>wordFreq[word] || 0\<close> yields an
  inherited object, \<open>+ 1\<close> makes a string of it, and the frequency read later is not a
  number: divided by the number of words it is \<open>NaN\<close>. No other lower-case word is a
  property of \<open>Object.prototype\<close>.
\<close>

definition inheritedKey :: "string \<Rightarrow> bool" where
  "inheritedKey word = (word = ''constructor'' \<or> word = ''__proto__'')"

text \<open>\<open>tf = wordFreq[word] / words.length\<close>, for a word of \<open>words\<close>.\<close>

definition termFrequency :: "string list \<Rightarrow> string \<Rightarrow> jsnum" where
  "termFrequency words word =
     (if inheritedKey word then NaN
      else Num (real (count_list words word) / real (length words)))"

text \<open>
  One step of the word hash: \<open>((hash << 5) - hash + char + hashFunc * 31) & 0x7fffffff\<close>.
  The shift and the mask work on 32-bit integers, the sum between them is exact.
\<close>

definition hashStep :: "nat \<Rightarrow> int \<Rightarrow> char \<Rightarrow> int" where
  "hashStep hashFunc hash c =
     uint ((word_of_int
              (sint (push_bit 5 (word_of_int hash :: 32 word))
                 - hash + int (of_char c) + int hashFunc * 31) :: 32 word)
           AND 0x7fffffff)"

definition wordHash :: "nat \<Rightarrow> string \<Rightarrow> int" where
  "wordHash hashFunc word = foldl (hashStep hashFunc) 0 word"

text \<open>\<open>embedding[i] += v\<close>\<close>

definition addAt :: "jsnum list \<Rightarrow> nat \<Rightarrow> jsnum \<Rightarrow> jsnum list" where
  "addAt embedding i v = embedding[i := jsAdd (embedding ! i) v]"

text \<open>The body of the loop over the five hash functions, for one word.\<close>

definition addHash :: "jsnum \<Rightarrow> string \<Rightarrow> nat \<Rightarrow> jsnum list \<Rightarrow> jsnum list" where
  "addHash weight word hashFunc embedding =
     (let hash = wordHash hashFunc word;
          dim1 = nat (hash mod 384);
          dim2 = nat ((hash * 31) mod 384);
          dim3 = nat ((hash * 97) mod 384);
          e1 = addAt embedding dim1 (jsMul weight (Num (sin (real_of_int hash * 0.001))));
          e2 = addAt e1 dim2 (jsMul weight (Num (cos (real_of_int hash * 0.001))))
      in addAt e2 dim3 (jsMul weight (Num (tan (real_of_int hash * 0.0001)))))"

text \<open>
  The body of \<open>uniqueWords.forEach((word, wordIndex) => ...)\<close>; \<open>n\<close> is
  \<open>uniqueWords.length\<close>.
\<close>

definition addWord :: "string list \<Rightarrow> nat \<Rightarrow> nat \<times> string \<Rightarrow> jsnum list \<Rightarrow> jsnum list" where
  "addWord words n iw embedding =
     (case iw of (wordIndex, word) \<Rightarrow>
        let tf = termFrequency words word;
            weight = jsMul tf (Num (ln (real n / real (1 + wordIndex))))
        in fold (addHash weight word) [0..<5] embedding)"

text \<open>The positional encoding of the word at position \<open>i\<close>.\<close>

definition posHash :: "nat \<Rightarrow> string \<Rightarrow> int" where
  "posHash i word =
     foldl (\<lambda>h c. uint ((word_of_int
                            (sint (push_bit 3 (word_of_int h :: 32 word))
                               + int (of_char c) + int i) :: 32 word)
                         AND 0x7fffffff)) 0 word"

definition addPosition :: "nat \<times> string \<Rightarrow> jsnum list \<Rightarrow> jsnum list" where
  "addPosition iw embedding =
     (case iw of (i, word) \<Rightarrow>
        let positionWeight = 1 / real (i + 1);
            dim = nat (posHash i word mod 384)
        in addAt embedding dim (Num (positionWeight * 0.1)))"

text \<open>
  \<open>calculateEntropy\<close>. \<open>Object.values(freq)\<close> has one count for each distinct word; the
  value for \<open>constructor\<close> is a string, whose \<open>p\<close> is \<open>NaN\<close> and fails \<open>p > 0\<close>, and
  \<open>__proto__\<close> leaves no own property.
\<close>

definition calculateEntropy :: "string list \<Rightarrow> real" where
  "calculateEntropy words =
     (let total = length words
      in foldl (\<lambda>entropy word.
           if inheritedKey word then entropy
           else (let p = real (count_list words word) / real total
                 in if p > 0 then entropy - p * log 2 p else entropy))
         0 (uniqueWords words))"

text \<open>\<open>words.reduce((sum, word) => sum + word.length, 0) / words.length\<close>\<close>

definition avgWordLength :: "string list \<Rightarrow> jsnum" where
  "avgWordLength words =
     (if words = [] then NaN
      else Num (real (foldl (\<lambda>sum word. sum + length word) 0 words) / real (length words)))"

text \<open>The L2 normalisation at the end of the \<open>try\<close> block.\<close>

definition l2normalize :: "jsnum list \<Rightarrow> jsnum list" where
  "l2normalize embedding =
     (let norm = jsSqrt (foldl (\<lambda>sum val. jsAdd sum (jsMul val val)) (Num 0) embedding)
      in if jsPositive norm
         then (case norm of Num n \<Rightarrow> map (jsDivBy n) embedding | NaN \<Rightarrow> embedding)
         else embedding)"

text \<open>The \<open>try\<close> block of \<open>generateEmbedding\<close>. Nothing in it throws for a string.\<close>

definition embed :: "string \<Rightarrow> error + jsnum list" where
  "embed text =
     (let words = embeddingWords text;
          uniq = uniqueWords words;
          e0 = replicate 384 (Num 0);
          e1 = fold (addWord words (length uniq)) (enumerate 0 uniq) e0;
          e2 = fold addPosition (enumerate 0 (take (min (length words) 50) words)) e1;
          textEntropy = calculateEntropy words;
          sentenceCount = length (splitOn isTerminator text);
          e3 = addAt e2 0 (jsMul (avgWordLength words) (Num 0.01));
          e4 = addAt e3 1 (Num (textEntropy * 0.01));
          e5 = addAt e4 2 (Num (real sentenceCount * 0.001));
          e6 = addAt e5 3 (Num (real (length words) * 0.0001))
      in Inr (l2normalize e6))"

text \<open>
  The \<open>catch\<close> block: 384 values of \<open>Math.random() - 0.5\<close>, divided by their norm. \<open>random\<close>
  gives the values that \<open>Math.random()\<close> returns next.
\<close>

definition randomEmbedding :: "(nat \<Rightarrow> real) \<Rightarrow> jsnum list" where
  "randomEmbedding random =
     (let fallback = map (\<lambda>i. random i - 0.5) [0..<384];
          norm = sqrt (foldl (\<lambda>sum val. sum + val * val) 0 fallback)
      in map (\<lambda>val. if norm = 0 then NaN else Num (val / norm)) fallback)"

definition generateEmbedding :: "(nat \<Rightarrow> real) \<Rightarrow> string \<Rightarrow> jsnum list" where
  "generateEmbedding random text =
     (case embed text of Inr embedding \<Rightarrow> embedding | Inl err \<Rightarrow> randomEmbedding random)"

section \<open>Global replacement with a regular expression\<close>

definition isLineTerminator :: "char \<Rightarrow> bool" where
  "isLineTerminator c = (of_char c \<in> {10, 13 :: nat})"

text \<open>
  \<open>s.replace(/re/g, r)\<close>. The matcher \<open>m\<close> stands for the expression: \<open>m lineStart s\<close> is
  the length of its match at the start of \<open>s\<close>, where \<open>lineStart\<close> tells whether \<open>^\<close> (with
  the flag \<open>m\<close>) holds there. The scan goes from left to right; after a match it goes on
  behind the match, otherwise it keeps one character and moves on. None of the
  expressions of the sources matches the empty string.
\<close>

function replaceAll :: "(bool \<Rightarrow> string \<Rightarrow> nat option) \<Rightarrow> string \<Rightarrow> bool \<Rightarrow> string \<Rightarrow> string" where
  "replaceAll m r lineStart [] = []"
| "replaceAll m r lineStart (c # cs) =
     (case m lineStart (c # cs) of
        Some (Suc k) \<Rightarrow> r @ replaceAll m r (isLineTerminator ((c # cs) ! k)) (drop k cs)
      | _ \<Rightarrow> c # replaceAll m r (isLineTerminator c) cs)"
  by pat_completeness auto
termination
  by (relation "measure (\<lambda>(m, r, b, s). length s)") auto

definition runLength :: "(char \<Rightarrow> bool) \<Rightarrow> string \<Rightarrow> nat" where
  "runLength P s = length (takeWhile P s)"

text \<open>\<open>/\*\*/\<close>, \<open>/#{1,6}\s/\<close>, \<open>/^\s*[-*+]\s/m\<close> and \<open>/\n{3,}/\<close> of \<open>storeDocument\<close>.\<close>

definition matchBold :: "bool \<Rightarrow> string \<Rightarrow> nat option" where
  "matchBold lineStart s = (if startsWith s ''**'' then Some 2 else None)"

definition matchHeader :: "bool \<Rightarrow> string \<Rightarrow> nat option" where
  "matchHeader lineStart s =
     (let n = runLength (\<lambda>c. c = CHR ''#'') s
      in if 1 \<le> n \<and> n \<le> 6 \<and> (case drop n s of x # _ \<Rightarrow> isSpace x | [] \<Rightarrow> False)
         then Some (n + 1) else None)"

definition matchBullet :: "bool \<Rightarrow> string \<Rightarrow> nat option" where
  "matchBullet lineStart s =
     (let k = runLength isSpace s
      in if lineStart
            \<and> (case drop k s of
                  x # y # _ \<Rightarrow> (x = CHR ''-'' \<or> x = CHR ''*'' \<or> x = CHR ''+'') \<and> isSpace y
                | _ \<Rightarrow> False)
         then Some (k + 2) else None)"

definition matchNewlines :: "nat \<Rightarrow> bool \<Rightarrow> string \<Rightarrow> nat option" where
  "matchNewlines least lineStart s =
     (let n = runLength (\<lambda>c. c = CHR 0x0A) s in if least \<le> n then Some n else None)"

text \<open>The preparation of the content in \<open>storeDocument\<close>.\<close>

definition cleanContent :: "string \<Rightarrow> string" where
  "cleanContent content =
     trim (replaceAll (matchNewlines 3) [CHR 0x0A, CHR 0x0A] True
       (replaceAll matchBullet [] True
         (replaceAll matchHeader [] True
           (replaceAll matchBold [] True content))))"

text \<open>\<open>/^#+ /m\<close> and \<open>/^- /m\<close> of \<open>processFile\<close>, and its own preparation of the content.\<close>

definition matchHeaderLine :: "bool \<Rightarrow> string \<Rightarrow> nat option" where
  "matchHeaderLine lineStart s =
     (let n = runLength (\<lambda>c. c = CHR ''#'') s
      in if lineStart \<and> 1 \<le> n \<and> (case drop n s of x # _ \<Rightarrow> x = CHR '' '' | [] \<Rightarrow> False)
         then Some (n + 1) else None)"

definition matchDashLine :: "bool \<Rightarrow> string \<Rightarrow> nat option" where
  "matchDashLine lineStart s = (if lineStart \<and> startsWith s ''- '' then Some 2 else None)"

definition cleanContentOfFile :: "string \<Rightarrow> string" where
  "cleanContentOfFile content =
     trim (replaceAll (matchNewlines 2) [CHR 0x0A] True
       (replaceAll matchDashLine [] True
         (replaceAll matchHeaderLine [] True
           (replaceAll matchBold [] True content))))"

text \<open>The decimal digits of a number, as a template literal prints it.\<close>

function showNat :: "nat \<Rightarrow> string" where
  "showNat n = (if n < 10 then [char_of (48 + n)] else showNat (n div 10) @ [char_of (48 + n mod 10)])"
  by pat_completeness auto
termination
  by (relation "measure id") auto

declare showNat.simps [simp del]

section \<open>The remote index and the environment\<close>

text \<open>The interface \<open>DocumentVector\<close> with its metadata (fields prefixed \<open>vm_\<close>, \<open>vec_\<close>).\<close>

record VectorMetadata =
  vm_fileName :: string
  vm_fileType :: string
  vm_content :: string
  vm_timestamp :: string
  vm_userId :: string
  vm_chunkIndex :: nat
  vm_totalChunks :: nat
  vm_chunkLength :: nat

record DocumentVector =
  vec_id :: string
  vec_values :: "jsnum list"
  vec_metadata :: VectorMetadata

text \<open>A query to the index, and a match of its response.\<close>

record QueryRequest =
  q_vector :: "real list"
  q_topK :: nat
  q_filter :: "string option"

record Match =
  match_id :: string
  match_score :: "real option"
  match_metadata :: "VectorMetadata option"

text \<open>\<open>import.meta.env\<close>\<close>

record Config =
  VITE_PINECONE_API_KEY :: "string option"
  VITE_PINECONE_INDEX_NAME :: "string option"

text \<open>
  Everything outside the program is an environment with a state of type \<open>'r\<close>: the remote
  index, the clock, the browser's storage. Each operation takes the state and returns
  its outcome (\<open>Inl\<close> for a thrown error) with the next state, so an operation may fail at
  one call and succeed at the next.
  \<^item> \<open>getIndex\<close> is \<open>getIndex()\<close> of \<open>pinecone.ts\<close>, which creates the client, looks the index
    up, creates it when it is missing and rethrows every failure;
  \<^item> \<open>index_upsert\<close>, \<open>index_query\<close> and \<open>index_deleteMany\<close> are the methods of the
    index (a query returns \<open>matches\<close>, which may be undefined);
  \<^item> \<open>Date_now\<close> is \<open>Date.now()\<close>, \<open>toISOString\<close> prints a time, \<open>sleep\<close> is a
    \<open>setTimeout\<close> that the program awaits, \<open>Math_random\<close> gives the next values of
    \<open>Math.random()\<close>;
  \<^item> \<open>localStorageAccess\<close> tells whether an access to \<open>localStorage\<close> (for
    \<open>clearAllDocuments\<close>, together with the dynamic import of its module) throws.
\<close>

record 'r Env =
  getIndex :: "'r \<Rightarrow> (error + unit) \<times> 'r"
  index_upsert :: "DocumentVector list \<Rightarrow> 'r \<Rightarrow> (error + unit) \<times> 'r"
  index_query :: "QueryRequest \<Rightarrow> 'r \<Rightarrow> (error + Match list option) \<times> 'r"
  index_deleteMany :: "string list \<Rightarrow> 'r \<Rightarrow> (error + unit) \<times> 'r"
  Date_now :: "'r \<Rightarrow> nat \<times> 'r"
  toISOString :: "nat \<Rightarrow> string"
  sleep :: "nat \<Rightarrow> 'r \<Rightarrow> 'r"
  Math_random :: "'r \<Rightarrow> nat \<Rightarrow> real"
  localStorageAccess :: "'r \<Rightarrow> (error + unit) \<times> 'r"

text \<open>
  The calls that reach a backend, in the order they are made. The list is a record of
  the run and has no counterpart in the program.
\<close>

datatype call =
    GetIndex
  | Upsert "DocumentVector list"
  | Query QueryRequest
  | DeleteMany "string list"
  | SetItem "LocalDocument list"
  | RemoveItem

text \<open>
  The state of a run: the environment, the item \<open>pulse-documents\<close> of \<open>localStorage\<close>, and
  the calls made so far.
\<close>

record 'r world =
  env :: 'r
  store :: storage
  calls :: "call list"

definition callGetIndex :: "'r Env \<Rightarrow> 'r world \<Rightarrow> (error + unit) \<times> 'r world" where
  "callGetIndex E w =
     (case getIndex E (env w) of (res, r) \<Rightarrow> (res, w\<lparr>env := r, calls := calls w @ [GetIndex]\<rparr>))"

definition callUpsert :: "'r Env \<Rightarrow> DocumentVector list \<Rightarrow> 'r world \<Rightarrow> (error + unit) \<times> 'r world" where
  "callUpsert E batch w =
     (case index_upsert E batch (env w) of
        (res, r) \<Rightarrow> (res, w\<lparr>env := r, calls := calls w @ [Upsert batch]\<rparr>))"

definition callQuery :: "'r Env \<Rightarrow> QueryRequest \<Rightarrow> 'r world \<Rightarrow> (error + Match list option) \<times> 'r world" where
  "callQuery E request w =
     (case index_query E request (env w) of
        (res, r) \<Rightarrow> (res, w\<lparr>env := r, calls := calls w @ [Query request]\<rparr>))"

definition callDeleteMany :: "'r Env \<Rightarrow> string list \<Rightarrow> 'r world \<Rightarrow> (error + unit) \<times> 'r world" where
  "callDeleteMany E batch w =
     (case index_deleteMany E batch (env w) of
        (res, r) \<Rightarrow> (res, w\<lparr>env := r, calls := calls w @ [DeleteMany batch]\<rparr>))"

definition callNow :: "'r Env \<Rightarrow> 'r world \<Rightarrow> nat \<times> 'r world" where
  "callNow E w = (case Date_now E (env w) of (t, r) \<Rightarrow> (t, w\<lparr>env := r\<rparr>))"

definition callSleep :: "'r Env \<Rightarrow> nat \<Rightarrow> 'r world \<Rightarrow> 'r world" where
  "callSleep E ms w = w\<lparr>env := sleep E ms (env w)\<rparr>"

text \<open>\<open>localStorage.setItem\<close> and \<open>localStorage.removeItem\<close> on the item of the documents.\<close>

definition setItem :: "'r Env \<Rightarrow> LocalDocument list \<Rightarrow> 'r world \<Rightarrow> (error + unit) \<times> 'r world" where
  "setItem E docs w =
     (case localStorageAccess E (env w) of
        (Inl e, r) \<Rightarrow> (Inl e, w\<lparr>env := r\<rparr>)
      | (Inr u, r) \<Rightarrow> (Inr (), w\<lparr>env := r, store := Some docs, calls := calls w @ [SetItem docs]\<rparr>))"

definition removeItem :: "'r Env \<Rightarrow> 'r world \<Rightarrow> (error + unit) \<times> 'r world" where
  "removeItem E w =
     (case localStorageAccess E (env w) of
        (Inl e, r) \<Rightarrow> (Inl e, w\<lparr>env := r\<rparr>)
      | (Inr u, r) \<Rightarrow> (Inr (), w\<lparr>env := r, store := None, calls := calls w @ [RemoveItem]\<rparr>))"

text \<open>
  \<open>getStoredDocuments()\<close> in a run: a read of \<open>localStorage\<close> that throws is caught and
  gives the empty list.
\<close>

definition readStoredDocuments :: "'r Env \<Rightarrow> 'r world \<Rightarrow> LocalDocument list \<times> 'r world" where
  "readStoredDocuments E w =
     (case localStorageAccess E (env w) of
        (Inl e, r) \<Rightarrow> ([], w\<lparr>env := r\<rparr>)
      | (Inr u, r) \<Rightarrow> (getStoredDocuments (store w), w\<lparr>env := r\<rparr>))"

section \<open>Storing a document (\<open>src/lib/vectorUtils.ts\<close>, \<open>storeDocument\<close>)\<close>

text \<open>\<open>userId || d\<close>\<close>

definition orDefault :: "string option \<Rightarrow> string \<Rightarrow> string" where
  "orDefault v d = (case v of None \<Rightarrow> d | Some s \<Rightarrow> if s = [] then d else s)"

text \<open>\<open>fileName.replace(/[^a-zA-Z0-9.-]/g, '_')\<close>\<close>

definition safeFileName :: "string \<Rightarrow> string" where
  "safeFileName fileName =
     map (\<lambda>c. if (isWordChar c \<and> c \<noteq> CHR ''_'') \<or> c = CHR ''.'' \<or> c = CHR ''-''
              then c else CHR ''_'') fileName"

text \<open>
  The body of the inner loop: the vector of one chunk, appended to \<open>vectors\<close>.
  \<open>generateEmbedding\<close> does not throw, so the \<open>catch\<close> around it has no branch here. The
  clock is read for the id and again for the timestamp.
\<close>

definition prepareVector ::
  "'r Env \<Rightarrow> string \<Rightarrow> string \<Rightarrow> string option \<Rightarrow> nat \<Rightarrow> nat \<times> string
     \<Rightarrow> DocumentVector list \<times> 'r world \<Rightarrow> DocumentVector list \<times> 'r world" where
  "prepareVector E fileName fileType userId totalChunks ic vw =
     (case ic of (chunkIndex, chunk) \<Rightarrow>
      case vw of (vectors, w) \<Rightarrow>
      let embedding = generateEmbedding (Math_random E (env w)) chunk in
      case callNow E w of (t1, w1) \<Rightarrow>
      case callNow E w1 of (t2, w2) \<Rightarrow>
      let vector =
        \<lparr>vec_id = safeFileName fileName @ ''_'' @ showNat t1 @ ''_'' @ showNat chunkIndex,
         vec_values = embedding,
         vec_metadata =
           \<lparr>vm_fileName = fileName, vm_fileType = fileType, vm_content = take 1000 chunk,
            vm_timestamp = toISOString E t2, vm_userId = orDefault userId ''default-user'',
            vm_chunkIndex = chunkIndex, vm_totalChunks = totalChunks,
            vm_chunkLength = length chunk\<rparr>\<rparr>
      in (vectors @ [vector], w2))"

text \<open>
  The outer loop \<open>for (let i = 0; i < chunks.length; i += batchSize)\<close> with
  \<open>batchSize = 5\<close> and a pause of 100 ms between two batches.
\<close>

function prepareVectors ::
  "'r Env \<Rightarrow> string \<Rightarrow> string \<Rightarrow> string option \<Rightarrow> string list \<Rightarrow> nat
     \<Rightarrow> DocumentVector list \<times> 'r world \<Rightarrow> DocumentVector list \<times> 'r world" where
  "prepareVectors E fileName fileType userId chunks i vw =
     (if i < length chunks then
        let batch = take 5 (drop i chunks) in
        case fold (prepareVector E fileName fileType userId (length chunks))
               (enumerate i batch) vw of
          (vectors, w) \<Rightarrow>
            prepareVectors E fileName fileType userId chunks (i + 5)
              (vectors, if i + 5 < length chunks then callSleep E 100 w else w)
      else vw)"
  by pat_completeness auto
termination
  by (relation "measure (\<lambda>(E, fileName, fileType, userId, chunks, i, vw). length chunks - i)") auto

declare prepareVectors.simps [simp del]

text \<open>
  The loop \<open>for (let i = 0; i < vectors.length; i += upsertBatchSize)\<close> with
  \<open>upsertBatchSize = 10\<close>: the \<open>try\<close> around \<open>index.upsert(batch)\<close> and the pause of 200 ms,
  and the \<open>catch\<close> that only logs.
\<close>

function upsertBatches :: "'r Env \<Rightarrow> DocumentVector list \<Rightarrow> nat \<Rightarrow> 'r world \<Rightarrow> 'r world" where
  "upsertBatches E vectors i w =
     (if i < length vectors then
        let batch = take 10 (drop i vectors) in
        case callUpsert E batch w of
          (Inr u, w1) \<Rightarrow>
            upsertBatches E vectors (i + 10)
              (if i + 10 < length vectors then callSleep E 200 w1 else w1)
        | (Inl batchError, w1) \<Rightarrow> upsertBatches E vectors (i + 10) w1
      else w)"
  by pat_completeness auto
termination
  by (relation "measure (\<lambda>(E, vectors, i, w). length vectors - i)") auto

declare upsertBatches.simps [simp del]

definition storeDocument ::
  "Config \<Rightarrow> 'r Env \<Rightarrow> string \<Rightarrow> string \<Rightarrow> string \<Rightarrow> string option \<Rightarrow> 'r world
     \<Rightarrow> (error + unit) \<times> 'r world" where
  "storeDocument cfg E fileName fileType content userId w =
     (if \<not> truthy (VITE_PINECONE_API_KEY cfg)
      then (Inl (Error ''Pinecone API key not available - check environment variables''), w)
      else case callGetIndex E w of
        (Inl e, w1) \<Rightarrow> (Inl e, w1)
      | (Inr index, w1) \<Rightarrow>
          let chunks = chunkText (cleanContent content) 800 in
          if length chunks = 0 then (Inl (Error ''No content chunks to process''), w1)
          else case prepareVectors E fileName fileType userId chunks 0 ([], w1) of
            (vectors, w2) \<Rightarrow>
              if length vectors = 0
              then (Inl (Error ''No vectors were successfully created''), w2)
              else (Inr (), upsertBatches E vectors 0 w2))"

text \<open>The chunks and the vectors that \<open>storeDocument\<close> prepares once it has the index.\<close>

definition contentChunks :: "string \<Rightarrow> string list" where
  "contentChunks content = chunkText (cleanContent content) 800"

definition preparedVectors ::
  "'r Env \<Rightarrow> string \<Rightarrow> string \<Rightarrow> string \<Rightarrow> string option \<Rightarrow> 'r world \<Rightarrow> DocumentVector list" where
  "preparedVectors E fileName fileType content userId w =
     fst (prepareVectors E fileName fileType userId (contentChunks content) 0
            ([], snd (callGetIndex E w)))"

section \<open>Listing and clearing (\<open>getUserDocuments\<close>, \<open>clearUserDocuments\<close>)\<close>

record DocumentSummary =
  sum_fileName :: string
  sum_fileType :: string
  sum_timestamp :: string
  sum_score :: "real option"
  sum_totalChunks :: "nat option"

text \<open>The broad query with the dummy vector, filtered by the user when one is given.\<close>

definition broadQuery :: "nat \<Rightarrow> string option \<Rightarrow> QueryRequest" where
  "broadQuery topK userId =
     \<lparr>q_vector = replicate 384 0.1, q_topK = topK,
      q_filter = (if truthy userId then userId else None)\<rparr>"

text \<open>
  The body of \<open>matches.forEach\<close>: \<open>documentsMap\<close> keeps the first match of each file name,
  in the order of insertion. \<open>totalChunks || 1\<close> turns 0 into 1.
\<close>

definition addDocument :: "DocumentSummary list \<Rightarrow> Match \<Rightarrow> DocumentSummary list" where
  "addDocument documentsMap m =
     (case match_metadata m of
        None \<Rightarrow> documentsMap
      | Some md \<Rightarrow>
          if vm_fileName md \<noteq> [] \<and> vm_fileName md \<notin> set (map sum_fileName documentsMap)
          then documentsMap @
                 [\<lparr>sum_fileName = vm_fileName md, sum_fileType = vm_fileType md,
                   sum_timestamp = vm_timestamp md, sum_score = match_score m,
                   sum_totalChunks =
                     Some (if vm_totalChunks md = 0 then 1 else vm_totalChunks md)\<rparr>]
          else documentsMap)"

text \<open>The \<open>try\<close> block of \<open>getUserDocuments\<close>, and the function with its \<open>catch\<close>.\<close>

definition getUserDocuments_try ::
  "'r Env \<Rightarrow> string option \<Rightarrow> 'r world \<Rightarrow> (error + DocumentSummary list) \<times> 'r world" where
  "getUserDocuments_try E userId w =
     (case callGetIndex E w of
        (Inl e, w1) \<Rightarrow> (Inl e, w1)
      | (Inr index, w1) \<Rightarrow>
          (case callQuery E (broadQuery 100 userId) w1 of
             (Inl e, w2) \<Rightarrow> (Inl e, w2)
           | (Inr matches, w2) \<Rightarrow>
               (Inr (foldl addDocument [] (case matches of None \<Rightarrow> [] | Some ms \<Rightarrow> ms)), w2)))"

definition getUserDocuments ::
  "'r Env \<Rightarrow> string option \<Rightarrow> 'r world \<Rightarrow> (error + DocumentSummary list) \<times> 'r world" where
  "getUserDocuments E userId w =
     (case getUserDocuments_try E userId w of
        (Inl error, w1) \<Rightarrow> (Inr [], w1)
      | (Inr documents, w1) \<Rightarrow> (Inr documents, w1))"

text \<open>The loop that deletes the vectors in batches of 100; a failed batch is logged.\<close>

function deleteBatches :: "'r Env \<Rightarrow> string list \<Rightarrow> nat \<Rightarrow> 'r world \<Rightarrow> 'r world" where
  "deleteBatches E vectorIds i w =
     (if i < length vectorIds then
        let batch = take 100 (drop i vectorIds) in
        case callDeleteMany E batch w of
          (Inr u, w1) \<Rightarrow>
            deleteBatches E vectorIds (i + 100)
              (if i + 100 < length vectorIds then callSleep E 200 w1 else w1)
        | (Inl batchError, w1) \<Rightarrow> deleteBatches E vectorIds (i + 100) w1
      else w)"
  by pat_completeness auto
termination
  by (relation "measure (\<lambda>(E, vectorIds, i, w). length vectorIds - i)") auto

declare deleteBatches.simps [simp del]

definition clearUserDocuments ::
  "'r Env \<Rightarrow> string option \<Rightarrow> 'r world \<Rightarrow> (error + unit) \<times> 'r world" where
  "clearUserDocuments E userId w =
     (case callGetIndex E w of
        (Inl e, w1) \<Rightarrow> (Inl e, w1)
      | (Inr index, w1) \<Rightarrow>
          (case getUserDocuments E userId w1 of
             (Inl e, w2) \<Rightarrow> (Inl e, w2)
           | (Inr documents, w2) \<Rightarrow>
               if length documents = 0 then (Inr (), w2)
               else (case callQuery E (broadQuery 10000 userId) w2 of
                  (Inl e, w3) \<Rightarrow> (Inl e, w3)
                | (Inr matches, w3) \<Rightarrow>
                    let vectorIds = (case matches of None \<Rightarrow> [] | Some ms \<Rightarrow> map match_id ms)
                    in if length vectorIds = 0 then (Inr (), w3)
                       else (Inr (), deleteBatches E vectorIds 0 w3))))"

section \<open>Clearing both stores (\<open>clearAllStoredDocuments\<close>)\<close>

text \<open>\<open>clearAllDocuments\<close> of \<open>localStorage.ts\<close>, reached through a dynamic import.\<close>

definition clearAllDocuments :: "'r Env \<Rightarrow> 'r world \<Rightarrow> (error + unit) \<times> 'r world" where
  "clearAllDocuments E w = removeItem E w"

text \<open>
  The \<open>try\<close> block of \<open>clearAllStoredDocuments\<close> clears the local store and then the remote
  index. Its \<open>catch\<close> clears the local store again, swallows a failure of that, and
  throws the error it caught.
\<close>

definition clearAllStoredDocuments_try ::
  "'r Env \<Rightarrow> string option \<Rightarrow> 'r world \<Rightarrow> (error + unit) \<times> 'r world" where
  "clearAllStoredDocuments_try E userId w =
     (case clearAllDocuments E w of
        (Inl e, w1) \<Rightarrow> (Inl e, w1)
      | (Inr u, w1) \<Rightarrow> clearUserDocuments E userId w1)"

definition clearAllStoredDocuments ::
  "'r Env \<Rightarrow> string option \<Rightarrow> 'r world \<Rightarrow> (error + unit) \<times> 'r world" where
  "clearAllStoredDocuments E userId w =
     (case clearAllStoredDocuments_try E userId w of
        (Inr u, w1) \<Rightarrow> (Inr (), w1)
      | (Inl error, w1) \<Rightarrow>
          (case clearAllDocuments E w1 of
             (Inr u, w2) \<Rightarrow> (Inl error, w2)
           | (Inl localError, w2) \<Rightarrow> (Inl error, w2)))"

section \<open>The document list of the user interface (\<open>loadUserDocuments\<close>)\<close>

text \<open>The state that \<open>loadUserDocuments\<close> sets.\<close>

record ManagerState =
  documents :: "DocumentSummary list"
  storageMethod :: string
  lastError :: "string option"

text \<open>
  The \<open>catch (pineconeError)\<close> of \<open>loadUserDocuments\<close>: the list comes from the local store.
  \<open>getUserDocumentsLocal\<close> catches its own errors, so the inner \<open>catch (localError)\<close> has
  no branch here.
\<close>

definition loadFromLocal :: "'r Env \<Rightarrow> error \<Rightarrow> ManagerState \<Rightarrow> 'r world \<Rightarrow> ManagerState \<times> 'r world" where
  "loadFromLocal E pineconeError st w =
     (case pineconeError of Error message \<Rightarrow>
      case localStorageAccess E (env w) of (res, r) \<Rightarrow>
        let localDocs = (case res of
                           Inl e \<Rightarrow> []
                         | Inr u \<Rightarrow> getUserDocumentsLocal (Some ''current-user'') (store w));
            userDocs = map (\<lambda>doc. \<lparr>sum_fileName = doc_fileName doc, sum_fileType = doc_fileType doc,
                                   sum_timestamp = doc_timestamp doc, sum_score = Some 1,
                                   sum_totalChunks = None\<rparr>) localDocs
        in (st\<lparr>lastError := Some (''Pinecone error: '' @ message), storageMethod := ''local'',
               documents := userDocs\<rparr>,
            w\<lparr>env := r\<rparr>))"

definition loadUserDocuments ::
  "Config \<Rightarrow> 'r Env \<Rightarrow> ManagerState \<Rightarrow> 'r world \<Rightarrow> ManagerState \<times> 'r world" where
  "loadUserDocuments cfg E st w =
     (let st0 = st\<lparr>lastError := None\<rparr>
      in if \<not> truthy (VITE_PINECONE_API_KEY cfg) \<or> \<not> truthy (VITE_PINECONE_INDEX_NAME cfg)
         then loadFromLocal E (Error ''Missing Pinecone environment variables'') st0 w
         else case getUserDocuments E (Some ''current-user'') w of
           (Inr userDocs, w1) \<Rightarrow> (st0\<lparr>storageMethod := ''pinecone'', documents := userDocs\<rparr>, w1)
         | (Inl pineconeError, w1) \<Rightarrow> loadFromLocal E pineconeError st0 w1)"

section \<open>Storing an uploaded file (\<open>storeDocumentLocal\<close>, \<open>processFile\<close>)\<close>

definition storeDocumentLocal ::
  "'r Env \<Rightarrow> string \<Rightarrow> string \<Rightarrow> string \<Rightarrow> string option \<Rightarrow> 'r world
     \<Rightarrow> (error + unit) \<times> 'r world" where
  "storeDocumentLocal E fileName fileType content userId w =
     (case callNow E w of (t1, w1) \<Rightarrow>
      case callNow E w1 of (t2, w2) \<Rightarrow>
      let document =
        \<lparr>doc_id = fileName @ ''_'' @ showNat t1, doc_fileName = fileName,
         doc_fileType = fileType, doc_content = content, doc_timestamp = toISOString E t2,
         doc_userId = Some (orDefault userId ''current-user'')\<rparr>
      in case readStoredDocuments E w2 of (existing, w3) \<Rightarrow>
           setItem E (existing @ [document]) w3)"

text \<open>
  The storage step of \<open>processFile\<close>, once the content of the file is known: what it
  reports about the storage. \<open>hasError\<close> is \<open>fileInfo.error\<close>.
\<close>

datatype storageReport = NotAttempted | StoredIn string | StorageFailed

definition storeProcessedFile ::
  "Config \<Rightarrow> 'r Env \<Rightarrow> bool \<Rightarrow> string \<Rightarrow> string \<Rightarrow> string \<Rightarrow> bool \<Rightarrow> 'r world
     \<Rightarrow> storageReport \<times> 'r world" where
  "storeProcessedFile cfg E storeInPinecone fileName fileType content hasError w =
     (if storeInPinecone \<and> content \<noteq> [] \<and> \<not> hasError then
        let cleaned = cleanContentOfFile content;
            type = (if fileType = [] then ''unknown'' else fileType)
        in if length cleaned > 50 then
             case storeDocument cfg E fileName type cleaned (Some ''current-user'') w of
               (Inr u, w1) \<Rightarrow> (StoredIn ''Pinecone vector database'', w1)
             | (Inl pineconeError, w1) \<Rightarrow>
                 (case storeDocumentLocal E fileName type cleaned (Some ''current-user'') w1 of
                    (Inr u, w2) \<Rightarrow> (StoredIn ''local storage (fallback)'', w2)
                  | (Inl localError, w2) \<Rightarrow> (StorageFailed, w2))
           else (NotAttempted, w)
      else (NotAttempted, w))"

section \<open>Consecutive batches, and environments for the examples\<close>

text \<open>The consecutive batches of size \<open>n\<close> of a list; the last one may be shorter.\<close>

function batchesOf :: "nat \<Rightarrow> 'a list \<Rightarrow> 'a list list" where
  "batchesOf n xs = (if n = 0 \<or> xs = [] then [] else take n xs # batchesOf n (drop n xs))"
  by pat_completeness auto
termination
  by (relation "measure (\<lambda>(n, xs). length xs)") auto

declare batchesOf.simps [simp del]

text \<open>The persistence calls among the calls of a run.\<close>

fun isPersistence :: "call \<Rightarrow> bool" where
  "isPersistence (Upsert batch) = True"
| "isPersistence (DeleteMany batch) = True"
| "isPersistence (SetItem docs) = True"
| "isPersistence RemoveItem = True"
| "isPersistence c = False"

fun isLocalCall :: "call \<Rightarrow> bool" where
  "isLocalCall (SetItem docs) = True"
| "isLocalCall RemoveItem = True"
| "isLocalCall c = False"

fun isUpsert :: "call \<Rightarrow> bool" where
  "isUpsert (Upsert batch) = True"
| "isUpsert c = False"

text \<open>
  An environment whose state is the clock. In \<open>exampleEnv indexUp queryUp upsertUp\<close> the
  index is obtained when \<open>indexUp\<close> holds, its queries succeed (with no match) when
  \<open>queryUp\<close> holds and its upserts succeed when \<open>upsertUp\<close> holds; the local storage
  always works.
\<close>

definition exampleEnv :: "bool \<Rightarrow> bool \<Rightarrow> bool \<Rightarrow> nat Env" where
  "exampleEnv indexUp queryUp upsertUp =
     \<lparr>getIndex = (\<lambda>t. (if indexUp then Inr () else Inl (Error ''index unreachable''), t)),
      index_upsert = (\<lambda>batch t. (if upsertUp then Inr () else Inl (Error ''upsert failed''), t)),
      index_query = (\<lambda>request t. (if queryUp then Inr (Some []) else Inl (Error ''query failed''), t)),
      index_deleteMany = (\<lambda>batch t. (Inr (), t)),
      Date_now = (\<lambda>t. (t, t + 1)),
      toISOString = showNat,
      sleep = (\<lambda>ms t. t + ms),
      Math_random = (\<lambda>t i. 1 / 2),
      localStorageAccess = (\<lambda>t. (Inr (), t))\<rparr>"

definition exampleConfig :: Config where
  "exampleConfig = \<lparr>VITE_PINECONE_API_KEY = Some ''key'', VITE_PINECONE_INDEX_NAME = Some ''pulse-documents''\<rparr>"

definition emptyWorld :: "nat world" where
  "emptyWorld = \<lparr>env = 0, store = None, calls = []\<rparr>"

definition worldWithDocs :: "nat world" where
  "worldWithDocs = \<lparr>env = 0, store = Some [docBar, docFoo], calls = []\<rparr>"

text \<open>A vector for the examples.\<close>

definition exampleVector :: DocumentVector where
  "exampleVector =
     \<lparr>vec_id = ''notes.txt_0_0'', vec_values = replicate 384 (Num 0),
      vec_metadata =
        \<lparr>vm_fileName = ''notes.txt'', vm_fileType = ''text/plain'', vm_content = ''Hello.'',
         vm_timestamp = ''0'', vm_userId = ''current-user'', vm_chunkIndex = 0,
         vm_totalChunks = 1, vm_chunkLength = 6\<rparr>\<rparr>"

definition initialManagerState :: ManagerState where
  "initialManagerState = \<lparr>documents = [], storageMethod = ''unknown'', lastError = None\<rparr>"

section \<open>Facts about strings\<close>

lemma splitOn_nonempty: "splitOn P s \<noteq> []"
proof (cases s)
  case Nil
  then show ?thesis by simp
next
  case (Cons c cs)
  then show ?thesis by (cases "splitOn P cs") simp_all
qed

lemma splitOn_no_separator: "\<forall>p \<in> set (splitOn P s). \<forall>x \<in> set p. \<not> P x"
proof (induction P s rule: splitOn.induct)
  case (1 P)
  show ?case by simp
next
  case (2 P c cs)
  show ?case
  proof (cases "P c")
    case True
    then show ?thesis using 2(1) by simp
  next
    case False
    obtain p ps where sp: "splitOn P cs = p # ps"
      using splitOn_nonempty[of P cs] by (cases "splitOn P cs") auto
    then show ?thesis using 2(2)[OF False] False by auto
  qed
qed

lemma dropWhile_all: "(\<forall>c \<in> set a. Q c) \<Longrightarrow> dropWhile Q (a @ z) = dropWhile Q z"
  by (induction a) auto

lemma trim_empty_iff: "trim s = [] \<longleftrightarrow> (\<forall>c \<in> set s. isSpace c)"
proof
  assume "trim s = []"
  then have all: "\<forall>c \<in> set (dropWhile isSpace s). isSpace c"
    by (simp add: trim_def trimEnd_def trimStart_def dropWhile_eq_Nil_conv)
  have "dropWhile isSpace s = []"
  proof (rule ccontr)
    assume ne: "dropWhile isSpace s \<noteq> []"
    then have "\<not> isSpace (hd (dropWhile isSpace s))" by (rule hd_dropWhile)
    moreover have "hd (dropWhile isSpace s) \<in> set (dropWhile isSpace s)" using ne by simp
    ultimately show False using all by blast
  qed
  then show "\<forall>c \<in> set s. isSpace c" by (simp only: dropWhile_eq_Nil_conv)
next
  assume "\<forall>c \<in> set s. isSpace c"
  then have "dropWhile isSpace s = []" by (simp only: dropWhile_eq_Nil_conv)
  then have "trim s = rev (dropWhile isSpace (rev []))"
    by (simp only: trim_def trimEnd_def trimStart_def)
  then show "trim s = []" by simp
qed

lemma trimEnd_pad: "(\<forall>c \<in> set b. isSpace c) \<Longrightarrow> trimEnd (z @ b) = trimEnd z"
  by (simp add: trimEnd_def dropWhile_all)

lemma trim_pad:
  assumes a: "\<forall>c \<in> set a. isSpace c" and b: "\<forall>c \<in> set b. isSpace c"
  shows "trim (a @ y @ b) = trim y"
proof (cases "\<forall>c \<in> set y. isSpace c")
  case True
  with a b have "\<forall>c \<in> set (a @ y @ b). isSpace c" by auto
  then have "trim (a @ y @ b) = []" by (simp only: trim_empty_iff)
  moreover from True have "trim y = []" by (simp only: trim_empty_iff)
  ultimately show ?thesis by simp
next
  case False
  then have "dropWhile isSpace (y @ b) = dropWhile isSpace y @ b"
    by (auto simp: dropWhile_append1)
  moreover have "dropWhile isSpace (a @ y @ b) = dropWhile isSpace (y @ b)"
    using a by (rule dropWhile_all)
  ultimately have "trim (a @ y @ b) = trimEnd (dropWhile isSpace y @ b)"
    by (simp only: trim_def trimStart_def)
  also have "\<dots> = trimEnd (dropWhile isSpace y)"
    using b by (rule trimEnd_pad)
  finally show ?thesis by (simp only: trim_def trimStart_def)
qed

lemma trim_decomp:
  "\<exists>a b. s = a @ trim s @ b \<and> (\<forall>c \<in> set a. isSpace c) \<and> (\<forall>c \<in> set b. isSpace c)"
proof -
  define t where "t = dropWhile isSpace s"
  have "takeWhile isSpace (rev t) @ dropWhile isSpace (rev t) = rev t" by simp
  then have "rev (takeWhile isSpace (rev t) @ dropWhile isSpace (rev t)) = t"
    by (simp only: rev_rev_ident)
  then have t: "trimEnd t @ rev (takeWhile isSpace (rev t)) = t"
    by (simp only: rev_append trimEnd_def)
  have "takeWhile isSpace s @ t = s" by (simp add: t_def)
  with t have "s = takeWhile isSpace s @ trimEnd t @ rev (takeWhile isSpace (rev t))"
    by metis
  then have "s = takeWhile isSpace s @ trim s @ rev (takeWhile isSpace (rev t))"
    by (simp only: trim_def trimStart_def t_def)
  moreover have "\<forall>c \<in> set (takeWhile isSpace s). isSpace c"
    by (auto dest: set_takeWhileD)
  moreover have "\<forall>c \<in> set (rev (takeWhile isSpace (rev t))). isSpace c"
    by (auto dest: set_takeWhileD)
  ultimately show ?thesis by blast
qed

section \<open>The chunker: the sentences in the chunks\<close>

lemma isSpace_not_separator: "isSpace c \<Longrightarrow> c \<noteq> CHR ''.''"
  by (auto simp: isSpace_def)

lemma removeSeparators_spaces: "(\<forall>c \<in> set a. isSpace c) \<Longrightarrow> removeSeparators a = a"
  by (induction a) (auto simp: removeSeparators_def dest: isSpace_not_separator)

lemma removeSeparators_append: "removeSeparators (x @ y) = removeSeparators x @ removeSeparators y"
  by (simp add: removeSeparators_def)

lemma removeSeparators_id: "(\<forall>c \<in> set s. c \<noteq> CHR ''.'') \<Longrightarrow> removeSeparators s = s"
  by (induction s) (auto simp: removeSeparators_def)

lemma trim_removeSeparators_trim: "trim (removeSeparators (trim x)) = trim (removeSeparators x)"
proof -
  obtain a b where x: "x = a @ trim x @ b"
    and a: "\<forall>c \<in> set a. isSpace c" and b: "\<forall>c \<in> set b. isSpace c"
    using trim_decomp[of x] by blast
  have "removeSeparators x = removeSeparators (a @ trim x @ b)" using x by simp
  also have "\<dots> = a @ removeSeparators (trim x) @ b"
    using a b by (simp add: removeSeparators_append removeSeparators_spaces)
  finally show ?thesis using a b by (simp add: trim_pad)
qed

lemma chunkLoop_groups:
  assumes "\<forall>s \<in> set ss. (\<forall>c \<in> set s. c \<noteq> CHR ''.'') \<and> (\<exists>c \<in> set s. \<not> isSpace c)"
    and "groupsOf chunks gs"
    and "removeSeparators cur = concat g"
    and "(g = []) = (cur = [])"
    and "g \<noteq> [] \<longrightarrow> (\<exists>c \<in> set cur. \<not> isSpace c)"
  shows "\<exists>gs' g' chunks' cur'. chunkLoop m ss chunks cur = (chunks', cur') \<and>
           groupsOf chunks' gs' \<and> removeSeparators cur' = concat g' \<and>
           ((g' = []) = (cur' = [])) \<and> (g' \<noteq> [] \<longrightarrow> (\<exists>c \<in> set cur'. \<not> isSpace c)) \<and>
           concat gs' @ g' = concat gs @ g @ ss"
  using assms
proof (induction ss arbitrary: chunks cur gs g)
  case Nil
  then show ?case by auto
next
  case (Cons s ss)
  have s1: "removeSeparators s = s" using Cons.prems(1) by (simp add: removeSeparators_id)
  have s2: "\<exists>c \<in> set s. \<not> isSpace c" using Cons.prems(1) by simp
  then have s3: "s \<noteq> []" by auto
  have rest: "\<forall>s \<in> set ss. (\<forall>c \<in> set s. c \<noteq> CHR ''.'') \<and> (\<exists>c \<in> set s. \<not> isSpace c)"
    using Cons.prems(1) by simp
  show ?case
  proof (cases "int (length cur) + int (length s) > m \<and> length cur > 0")
    case True
    then have "g \<noteq> []" using Cons.prems(4) by auto
    moreover have "trim (removeSeparators (trim cur)) = trim (concat g)"
      using Cons.prems(3) by (simp add: trim_removeSeparators_trim)
    ultimately have grp: "groupsOf (chunks @ [trim cur]) (gs @ [g])"
      using Cons.prems(2) by (simp add: groupsOf_def)
    have "\<exists>gs' g' chunks' cur'. chunkLoop m ss (chunks @ [trim cur]) s = (chunks', cur') \<and>
           groupsOf chunks' gs' \<and> removeSeparators cur' = concat g' \<and>
           ((g' = []) = (cur' = [])) \<and> (g' \<noteq> [] \<longrightarrow> (\<exists>c \<in> set cur'. \<not> isSpace c)) \<and>
           concat gs' @ g' = concat (gs @ [g]) @ [s] @ ss"
      by (rule Cons.IH[OF rest grp]) (use s1 s2 s3 in simp_all)
    moreover have "chunkLoop m (s # ss) chunks cur = chunkLoop m ss (chunks @ [trim cur]) s"
      using True by auto
    ultimately show ?thesis by simp
  next
    case False
    have "\<exists>gs' g' chunks' cur'. chunkLoop m ss chunks (cur @ s @ ''.'') = (chunks', cur') \<and>
           groupsOf chunks' gs' \<and> removeSeparators cur' = concat g' \<and>
           ((g' = []) = (cur' = [])) \<and> (g' \<noteq> [] \<longrightarrow> (\<exists>c \<in> set cur'. \<not> isSpace c)) \<and>
           concat gs' @ g' = concat gs @ (g @ [s]) @ ss"
    proof (rule Cons.IH[OF rest Cons.prems(2)])
      show "removeSeparators (cur @ s @ ''.'') = concat (g @ [s])"
        using Cons.prems(3) s1 by (simp add: removeSeparators_append) (simp add: removeSeparators_def)
      show "(g @ [s] = []) = (cur @ s @ ''.'' = [])" by simp
      show "g @ [s] \<noteq> [] \<longrightarrow> (\<exists>c\<in>set (cur @ s @ ''.''). \<not> isSpace c)" using s2 by auto
    qed
    moreover have "chunkLoop m (s # ss) chunks cur = chunkLoop m ss chunks (cur @ s @ ''.'')"
      using False by auto
    ultimately show ?thesis by simp
  qed
qed

lemma sentences_props:
  "\<forall>s \<in> set (sentences text). (\<forall>c \<in> set s. c \<noteq> CHR ''.'') \<and> (\<exists>c \<in> set s. \<not> isSpace c)"
proof
  fix s assume "s \<in> set (sentences text)"
  then have 1: "s \<in> set (splitOn isTerminator text)" and 2: "trim s \<noteq> []"
    by (auto simp: sentences_def)
  from 1 have "\<forall>c \<in> set s. \<not> isTerminator c" using splitOn_no_separator by blast
  then have "\<forall>c \<in> set s. c \<noteq> CHR ''.''" by (auto simp: isTerminator_def)
  moreover from 2 have "\<exists>c \<in> set s. \<not> isSpace c" by (simp add: trim_empty_iff)
  ultimately show "(\<forall>c \<in> set s. c \<noteq> CHR ''.'') \<and> (\<exists>c \<in> set s. \<not> isSpace c)" by simp
qed

text \<open>
  What the chunker keeps: the chunks, with the added full stops and the surrounding
  white space ignored, are the concatenations of consecutive non-empty groups of
  sentences, and the groups, concatenated, are the list of sentences. No character of a
  sentence is lost or repeated; where one sentence ends inside a chunk is not part of
  this statement.
\<close>

lemma chunkText_characters_kept:
  "\<exists>gs. concat gs = sentences text \<and> [] \<notin> set gs \<and>
        map (\<lambda>c. trim (removeSeparators c)) (chunkText text maxChunkSize) =
        map (\<lambda>g. trim (concat g)) gs"
proof -
  have "groupsOf [] []" by (simp add: groupsOf_def)
  moreover have "removeSeparators [] = concat []" by (simp add: removeSeparators_def)
  ultimately have "\<exists>gs' g' chunks' cur'.
      chunkLoop maxChunkSize (sentences text) [] [] = (chunks', cur') \<and>
      groupsOf chunks' gs' \<and> removeSeparators cur' = concat g' \<and>
      ((g' = []) = (cur' = [])) \<and> (g' \<noteq> [] \<longrightarrow> (\<exists>c \<in> set cur'. \<not> isSpace c)) \<and>
      concat gs' @ g' = concat [] @ [] @ sentences text"
    by (intro chunkLoop_groups[OF sentences_props]) simp_all
  then have "\<exists>gs' g' chunks' cur'.
      chunkLoop maxChunkSize (sentences text) [] [] = (chunks', cur') \<and>
      groupsOf chunks' gs' \<and> removeSeparators cur' = concat g' \<and>
      ((g' = []) = (cur' = [])) \<and> (g' \<noteq> [] \<longrightarrow> (\<exists>c \<in> set cur'. \<not> isSpace c)) \<and>
      concat gs' @ g' = sentences text"
    by simp
  then obtain gs' g' chunks' cur' where
      loop: "chunkLoop maxChunkSize (sentences text) [] [] = (chunks', cur')"
    and grp: "groupsOf chunks' gs'" and cur: "removeSeparators cur' = concat g'"
    and e: "(g' = []) = (cur' = [])" and ne: "g' \<noteq> [] \<longrightarrow> (\<exists>c \<in> set cur'. \<not> isSpace c)"
    and all: "concat gs' @ g' = sentences text"
    by blast
  show ?thesis
  proof (cases "trim cur' = []")
    case True
    then have "g' = []" using ne by (auto simp: trim_empty_iff)
    then show ?thesis using grp all loop True
      by (intro exI[of _ gs']) (simp add: chunkText_def groupsOf_def)
  next
    case False
    then have "g' \<noteq> []" using e by (auto simp: trim_def trimStart_def trimEnd_def)
    moreover have "trim (removeSeparators (trim cur')) = trim (concat g')"
      using cur by (simp add: trim_removeSeparators_trim)
    ultimately show ?thesis using grp all loop False
      by (intro exI[of _ "gs' @ [g']"]) (simp add: chunkText_def groupsOf_def)
  qed
qed


text \<open>
  Claim C8. The text \<open>One. Two. Three. Four\<close> has the four sentences \<open>One\<close>, \<open>Two\<close>,
  \<open>Three\<close> and \<open>Four\<close>. With \<open>maxChunkSize = 12\<close> the sentence \<open>Three\<close> opens a new buffer,
  and that branch (\<open>currentChunk = sentence\<close>) appends no full stop, unlike the other
  branch (\<open>currentChunk += sentence + '.'\<close>): the second chunk is \<open>Three Four.\<close>, and the
  sentences read back from the chunks are \<open>One\<close>, \<open>Two\<close> and \<open>Three Four\<close>. The sequence of
  sentences of the input is not reproduced.
\<close>

theorem chunkText_fuses_sentences:
  "sentences ''One. Two. Three. Four'' = [''One'', '' Two'', '' Three'', '' Four'']
   \<and> chunkText ''One. Two. Three. Four'' 12 = [''One. Two.'', ''Three Four.'']
   \<and> concat (map sentences (chunkText ''One. Two. Three. Four'' 12))
       = [''One'', '' Two'', ''Three Four'']
   \<and> map trim (concat (map sentences (chunkText ''One. Two. Three. Four'' 12)))
       \<noteq> map trim (sentences ''One. Two. Three. Four'')"
  by code_simp

section \<open>The chunker: the size of a chunk\<close>

text \<open>
  What holds for every chunk: it has at most \<open>maxChunkSize + 1\<close> characters, unless it is a
  single sentence.
\<close>

lemma length_trim_le: "length (trim s) \<le> length s"
proof -
  have "length (dropWhile isSpace (rev (dropWhile isSpace s))) \<le> length (rev (dropWhile isSpace s))"
    by (rule length_dropWhile_le)
  then have "length (trim s) \<le> length (dropWhile isSpace s)"
    by (simp add: trim_def trimEnd_def trimStart_def)
  also have "\<dots> \<le> length s" by (rule length_dropWhile_le)
  finally show ?thesis .
qed

lemma chunkLoop_bound:
  assumes "\<forall>c \<in> set chunks. boundedChunk m all c"
    and "cur = [] \<or> int (length cur) \<le> m + 1 \<or> (\<exists>s \<in> set all. cur = s \<or> cur = s @ ''.'')"
    and "set ss \<subseteq> set all"
    and "chunkLoop m ss chunks cur = (chunks', cur')"
  shows "(\<forall>c \<in> set chunks'. boundedChunk m all c)
     \<and> (cur' = [] \<or> int (length cur') \<le> m + 1 \<or> (\<exists>s \<in> set all. cur' = s \<or> cur' = s @ ''.''))"
  using assms
proof (induction ss arbitrary: chunks cur)
  case Nil
  then show ?case by simp
next
  case (Cons s ss)
  have s: "s \<in> set all" and ss: "set ss \<subseteq> set all" using Cons.prems(3) by auto
  have tb: "boundedChunk m all (trim cur)" if "cur \<noteq> []"
  proof -
    from Cons.prems(2) that consider "int (length cur) \<le> m + 1"
      | "\<exists>s \<in> set all. cur = s \<or> cur = s @ ''.''" by blast
    then show ?thesis
    proof cases
      case 1
      then have "int (length (trim cur)) \<le> m + 1" using length_trim_le[of cur] by linarith
      then show ?thesis by (simp add: boundedChunk_def)
    next
      case 2
      then show ?thesis by (auto simp: boundedChunk_def)
    qed
  qed
  show ?case
  proof (cases "int (length cur) + int (length s) > m \<and> length cur > 0")
    case True
    then have rec: "chunkLoop m ss (chunks @ [trim cur]) s = (chunks', cur')"
      using Cons.prems(4) by simp
    have 1: "\<forall>c \<in> set (chunks @ [trim cur]). boundedChunk m all c"
      using Cons.prems(1) tb True by auto
    have 2: "s = [] \<or> int (length s) \<le> m + 1 \<or> (\<exists>t \<in> set all. s = t \<or> s = t @ ''.'')"
      using s by blast
    from Cons.IH[OF 1 2 ss rec] show ?thesis .
  next
    case False
    then have rec: "chunkLoop m ss chunks (cur @ s @ ''.'') = (chunks', cur')"
      using Cons.prems(4) by auto
    have 2: "cur @ s @ ''.'' = [] \<or> int (length (cur @ s @ ''.'')) \<le> m + 1
        \<or> (\<exists>t \<in> set all. cur @ s @ ''.'' = t \<or> cur @ s @ ''.'' = t @ ''.'')"
    proof (cases "cur = []")
      case True
      then show ?thesis using s by auto
    next
      case ne: False
      with False have "int (length cur) + int (length s) \<le> m" by auto
      then show ?thesis by simp
    qed
    from Cons.IH[OF Cons.prems(1) 2 ss rec] show ?thesis .
  qed
qed

lemma chunkText_bound:
  assumes "c \<in> set (chunkText text m)"
  shows "int (length c) \<le> m + 1 \<or> (\<exists>s \<in> set (sentences text). c = trim s \<or> c = trim (s @ ''.''))"
proof -
  obtain chunks' cur' where loop: "chunkLoop m (sentences text) [] [] = (chunks', cur')"
    by (cases "chunkLoop m (sentences text) [] []")
  have "(\<forall>c \<in> set chunks'. boundedChunk m (sentences text) c)
     \<and> (cur' = [] \<or> int (length cur') \<le> m + 1
          \<or> (\<exists>s \<in> set (sentences text). cur' = s \<or> cur' = s @ ''.''))"
    by (rule chunkLoop_bound[OF _ _ _ loop]) simp_all
  then have A: "\<forall>c \<in> set chunks'. boundedChunk m (sentences text) c"
    and B: "cur' = [] \<or> int (length cur') \<le> m + 1
          \<or> (\<exists>s \<in> set (sentences text). cur' = s \<or> cur' = s @ ''.'')" by blast+
  from assms loop have "c \<in> set chunks' \<or> (c = trim cur' \<and> trim cur' \<noteq> [])"
    by (auto simp: chunkText_def split: if_splits)
  then show ?thesis
  proof
    assume "c \<in> set chunks'"
    with A show ?thesis by (simp add: boundedChunk_def)
  next
    assume c: "c = trim cur' \<and> trim cur' \<noteq> []"
    then have "cur' \<noteq> []" by (auto simp: trim_def trimStart_def trimEnd_def)
    with B consider "int (length cur') \<le> m + 1"
      | "\<exists>s \<in> set (sentences text). cur' = s \<or> cur' = s @ ''.''" by blast
    then show ?thesis
    proof cases
      case 1
      then have "int (length (trim cur')) \<le> m + 1" using length_trim_le[of cur'] by linarith
      then show ?thesis using c by simp
    next
      case 2
      then show ?thesis using c by auto
    qed
  qed
qed


text \<open>
  Claim C4. With \<open>maxChunkSize = 6\<close> the text \<open>aaa.bb.c\<close> has the sentences \<open>aaa\<close>, \<open>bb\<close>
  and \<open>c\<close>, none longer than 6, and its first chunk, which is not the last one, is
  \<open>aaa.bb.\<close> of length 7: the test that closes a buffer counts the sentence and not the
  full stop appended after it.
\<close>

theorem chunkText_exceeds_maxChunkSize:
  "sentences ''aaa.bb.c'' = [''aaa'', ''bb'', ''c'']
   \<and> chunkText ''aaa.bb.c'' 6 = [''aaa.bb.'', ''c'']
   \<and> length (chunkText ''aaa.bb.c'' 6 ! 0) = 7"
  by code_simp

section \<open>The local search\<close>

lemma startsWith_iff: "startsWith s t \<longleftrightarrow> (\<exists>q. s = t @ q)"
  by (induction s t rule: startsWith.induct) auto

lemma includesStr_iff: "includesStr s t \<longleftrightarrow> (\<exists>p q. s = p @ t @ q)"
proof (induction s)
  case Nil
  then show ?case by auto
next
  case (Cons c s)
  show ?case
  proof
    assume "includesStr (c # s) t"
    then consider "startsWith (c # s) t" | "includesStr s t" by auto
    then show "\<exists>p q. c # s = p @ t @ q"
    proof cases
      case 1
      then obtain q where "c # s = t @ q" by (auto simp: startsWith_iff)
      then have "c # s = [] @ t @ q" by simp
      then show ?thesis by blast
    next
      case 2
      then obtain p q where "s = p @ t @ q" using Cons.IH by blast
      then have "c # s = (c # p) @ t @ q" by simp
      then show ?thesis by blast
    qed
  next
    assume "\<exists>p q. c # s = p @ t @ q"
    then obtain p q where pq: "c # s = p @ t @ q" by blast
    show "includesStr (c # s) t"
    proof (cases p)
      case Nil
      then have "startsWith (c # s) t" using pq by (auto simp: startsWith_iff)
      then show ?thesis by simp
    next
      case (Cons d p')
      then have "s = p' @ t @ q" using pq by simp
      then have "includesStr s t" using Cons.IH by blast
      then show ?thesis by simp
    qed
  qed
qed

lemma insertBy_insort_key:
  "insertBy (\<lambda>a b. int (k b) - int (k a)) x xs = insort_key (\<lambda>d. - int (k d)) x xs"
  by (induction xs) auto

lemma sortBy_sort_key:
  "sortBy (\<lambda>a b. int (k b) - int (k a)) xs = sort_key (\<lambda>d. - int (k d)) xs"
  by (induction xs) (simp_all add: sortBy_def insertBy_insort_key)

lemma sorted_desc: "sorted (map (\<lambda>d. - int (k d)) xs) \<Longrightarrow> sorted_wrt (\<lambda>a b. k a \<ge> k b) xs"
  by (induction xs) auto

text \<open>
  Claim C5, as the code has it. The local search lower-cases the query and splits it at
  white space (a query that starts or ends with white space, and the empty query, give an
  empty token, which every text includes). It returns exactly the records of the user's
  documents (all documents when no user id is given) whose lower-cased
  \<open>fileName + " " + content\<close> includes at least one token; the result is ordered by the
  number of tokens found, descending, where a token is counted as often as it occurs in
  the query, and records with the same number keep their insertion order.
\<close>

theorem searchDocumentsLocal_ranking:
  "mset (searchDocumentsLocal query userId stored) =
     mset (filter (\<lambda>doc. \<exists>term \<in> set (searchTerms query). \<exists>p s. searchText doc = p @ term @ s)
            (filteredDocs userId stored))
   \<and> sorted_wrt (\<lambda>a b. termMatches (searchTerms query) a \<ge> termMatches (searchTerms query) b)
        (searchDocumentsLocal query userId stored)
   \<and> (\<forall>n. filter (\<lambda>doc. termMatches (searchTerms query) doc = n)
              (searchDocumentsLocal query userId stored) =
            filter (\<lambda>doc. termMatches (searchTerms query) doc = n)
              (filter (\<lambda>doc. \<exists>term \<in> set (searchTerms query). \<exists>p s. searchText doc = p @ term @ s)
                (filteredDocs userId stored)))
   \<and> (\<forall>doc. termMatches (searchTerms query) doc =
          length (filter (\<lambda>term. \<exists>p s. searchText doc = p @ term @ s) (searchTerms query)))"
proof -
  let ?k = "termMatches (searchTerms query)"
  let ?M = "filter (\<lambda>doc. \<exists>term \<in> set (searchTerms query). \<exists>p s. searchText doc = p @ term @ s)
            (filteredDocs userId stored)"
  have M: "matchingDocs query userId stored = ?M"
    by (simp add: matchingDocs_def list_ex_iff includesStr_iff)
  have R: "searchDocumentsLocal query userId stored = sort_key (\<lambda>d. - int (?k d)) ?M"
    by (simp only: searchDocumentsLocal_def sortBy_sort_key M)
  have 1: "mset (searchDocumentsLocal query userId stored) = mset ?M"
    by (simp only: R mset_sort)
  have "sorted (map (\<lambda>d. - int (?k d)) (searchDocumentsLocal query userId stored))"
    by (simp only: R sorted_sort_key)
  then have 2: "sorted_wrt (\<lambda>a b. ?k a \<ge> ?k b) (searchDocumentsLocal query userId stored)"
    by (rule sorted_desc)
  have 3: "filter (\<lambda>doc. ?k doc = n) (searchDocumentsLocal query userId stored) =
           filter (\<lambda>doc. ?k doc = n) ?M" for n
  proof -
    have "filter (\<lambda>doc. - int (?k doc) = - int n) (sort_key (\<lambda>d. - int (?k d)) ?M) =
          filter (\<lambda>doc. - int (?k doc) = - int n) ?M"
      by (rule sort_key_stable)
    then show ?thesis by (simp add: R)
  qed
  have 4: "?k doc = length (filter (\<lambda>term. \<exists>p s. searchText doc = p @ term @ s) (searchTerms query))"
    for doc
    by (simp add: termMatches_def includesStr_iff)
  from 1 2 3 4 show ?thesis by blast
qed

theorem searchDocumentsLocal_ranking_witness:
  "searchDocumentsLocal ''foo bar'' (Some ''current-user'') (Some [docBar, docFoo, docBar]) = [docBar, docFoo, docBar]
   \<and> sorted_wrt (\<lambda>a b. termMatches (searchTerms ''foo bar'') a \<ge> termMatches (searchTerms ''foo bar'') b)
        (searchDocumentsLocal ''foo bar'' (Some ''current-user'') (Some [docBar, docFoo, docBar]))"
proof -
  have "searchDocumentsLocal ''foo bar'' (Some ''current-user'') (Some [docBar, docFoo, docBar])
          = [docBar, docFoo, docBar]"
    by code_simp
  moreover have "sorted_wrt
      (\<lambda>a b. termMatches (searchTerms ''foo bar'') a \<ge> termMatches (searchTerms ''foo bar'') b)
      (searchDocumentsLocal ''foo bar'' (Some ''current-user'') (Some [docBar, docFoo, docBar]))"
    using searchDocumentsLocal_ranking[where query = "''foo bar''"
        and userId = "Some ''current-user''" and stored = "Some [docBar, docFoo, docBar]"]
    by blast
  ultimately show ?thesis by blast
qed

text \<open>
  Claim C5 as stated fails: for the query \<open>foo foo bar\<close> both documents hold one distinct
  token, and \<open>docBar\<close> was stored first, but the search returns \<open>docFoo\<close> first, because
  it counts \<open>foo\<close> twice.
\<close>

theorem searchDocumentsLocal_counts_repeated_terms:
  "searchDocumentsLocal ''foo foo bar'' (Some ''current-user'') (Some [docBar, docFoo])
     = [docFoo, docBar]
   \<and> distinctTermMatches (searchTerms ''foo foo bar'') docBar = 1
   \<and> distinctTermMatches (searchTerms ''foo foo bar'') docFoo = 1"
  by code_simp

section \<open>The scores of the fallback search\<close>

lemma handleSearch_score:
  assumes "i < length (handleSearch q (Inl e) stored)"
  shows "score (handleSearch q (Inl e) stored ! i) = max (0.9 - real i * 0.1) 0.1"
proof -
  from assms have ne: "trim q \<noteq> []" by (auto simp: handleSearch_def)
  with assms have "i < length (take 10 (searchDocumentsLocal q (Some ''current-user'') stored))"
    by (simp add: handleSearch_def Let_def)
  then show ?thesis using ne
    by (simp add: handleSearch_def Let_def nth_enumerate_eq)
qed

lemma mockSearchResults_score:
  assumes "i < length (mockSearchResults q (Inl e) stored)"
  shows "score (mockSearchResults q (Inl e) stored ! i) = max (0.9 - real i * 0.1) 0.1"
proof -
  let ?c = "let terms = toLowerCase q
      in includesStr terms ''document'' \<or> includesStr terms ''file''
            \<or> includesStr terms ''tell me about'' \<or> includesStr terms ''what''
            \<or> includesStr terms ''explain'' \<or> includesStr terms ''analyze''"
  have eq: "mockSearchResults q (Inl e) stored = (if ?c then map (\<lambda>(index, doc).
                   \<lparr>score = max (0.9 - real index * 0.1) 0.1,
                    metadata = \<lparr>meta_fileName = doc_fileName doc, meta_fileType = doc_fileType doc,
                      meta_content = doc_content doc, meta_timestamp = None\<rparr>\<rparr>)
                 (enumerate 0 (take 3 (searchDocumentsLocal q (Some ''current-user'') stored))) else [])"
    by (simp add: mockSearchResults_def Let_def)
  from assms have c: ?c unfolding eq by (auto split: if_splits)
  with assms have "i < length (take 3 (searchDocumentsLocal q (Some ''current-user'') stored))"
    unfolding eq by simp
  then show ?thesis unfolding eq using c by (simp add: nth_enumerate_eq)
qed

text \<open>
  Claim C6. When the remote search throws and the local store serves the search, the
  result of rank \<open>i\<close> (from 0) carries the score \<open>max (0.9 - 0.1 * i) 0.1\<close>; each score
  lies between 0.1 and 0.9 and the scores do not increase along the list. This holds in
  the document manager (at most 10 results) and in the chat hook (at most 3). Scores are
  real numbers here.
\<close>

theorem fallback_scores:
  "(\<forall>i < length (handleSearch q (Inl e) stored).
      score (handleSearch q (Inl e) stored ! i) = max (0.9 - 0.1 * real i) 0.1
      \<and> 0.1 \<le> score (handleSearch q (Inl e) stored ! i)
      \<and> score (handleSearch q (Inl e) stored ! i) \<le> 0.9
      \<and> (\<forall>j < length (handleSearch q (Inl e) stored). i \<le> j \<longrightarrow>
            score (handleSearch q (Inl e) stored ! j) \<le> score (handleSearch q (Inl e) stored ! i)))
   \<and> (\<forall>i < length (mockSearchResults q (Inl e) stored).
      score (mockSearchResults q (Inl e) stored ! i) = max (0.9 - 0.1 * real i) 0.1
      \<and> 0.1 \<le> score (mockSearchResults q (Inl e) stored ! i)
      \<and> score (mockSearchResults q (Inl e) stored ! i) \<le> 0.9
      \<and> (\<forall>j < length (mockSearchResults q (Inl e) stored). i \<le> j \<longrightarrow>
            score (mockSearchResults q (Inl e) stored ! j) \<le> score (mockSearchResults q (Inl e) stored ! i)))"
proof -
  have A: "score (handleSearch q (Inl e) stored ! i) = max (0.9 - 0.1 * real i) 0.1"
    if "i < length (handleSearch q (Inl e) stored)" for i
    using handleSearch_score[OF that] by (simp add: mult.commute)
  have B: "score (mockSearchResults q (Inl e) stored ! i) = max (0.9 - 0.1 * real i) 0.1"
    if "i < length (mockSearchResults q (Inl e) stored)" for i
    using mockSearchResults_score[OF that] by (simp add: mult.commute)
  have bounds: "(0.1 :: real) \<le> max (0.9 - 0.1 * real i) 0.1 \<and> max (0.9 - 0.1 * real i) 0.1 \<le> (0.9 :: real)" for i
    by (simp add: max_def)
  have mono: "max (0.9 - 0.1 * real j) 0.1 \<le> (max (0.9 - 0.1 * real i) 0.1 :: real)" if "i \<le> j" for i j
    using that by (auto simp: max_def)
  show ?thesis
  proof (intro conjI allI impI)
    fix i assume i: "i < length (handleSearch q (Inl e) stored)"
    show "score (handleSearch q (Inl e) stored ! i) = max (0.9 - 0.1 * real i) 0.1" by (rule A[OF i])
    show "0.1 \<le> score (handleSearch q (Inl e) stored ! i)" using bounds[of i] by (simp only: A[OF i])
    show "score (handleSearch q (Inl e) stored ! i) \<le> 0.9" using bounds[of i] by (simp only: A[OF i])
    fix j assume j: "j < length (handleSearch q (Inl e) stored)" and ij: "i \<le> j"
    show "score (handleSearch q (Inl e) stored ! j) \<le> score (handleSearch q (Inl e) stored ! i)"
      using mono[OF ij] by (simp only: A[OF i] A[OF j])
  next
    fix i assume i: "i < length (mockSearchResults q (Inl e) stored)"
    show "score (mockSearchResults q (Inl e) stored ! i) = max (0.9 - 0.1 * real i) 0.1" by (rule B[OF i])
    show "0.1 \<le> score (mockSearchResults q (Inl e) stored ! i)" using bounds[of i] by (simp only: B[OF i])
    show "score (mockSearchResults q (Inl e) stored ! i) \<le> 0.9" using bounds[of i] by (simp only: B[OF i])
    fix j assume j: "j < length (mockSearchResults q (Inl e) stored)" and ij: "i \<le> j"
    show "score (mockSearchResults q (Inl e) stored ! j) \<le> score (mockSearchResults q (Inl e) stored ! i)"
      using mono[OF ij] by (simp only: B[OF i] B[OF j])
  qed
qed

theorem fallback_scores_witness:
  "length (handleSearch ''foo bar'' (Inl (Error ''down'')) (Some [docBar, docFoo, docBar])) = 3
   \<and> score (handleSearch ''foo bar'' (Inl (Error ''down'')) (Some [docBar, docFoo, docBar]) ! 1) = 0.8
   \<and> length (mockSearchResults ''what foo'' (Inl (Error ''down'')) (Some [docBar, docFoo, docBar])) = 1
   \<and> score (mockSearchResults ''what foo'' (Inl (Error ''down'')) (Some [docBar, docFoo, docBar]) ! 0) = 0.9"
proof -
  let ?h = "handleSearch ''foo bar'' (Inl (Error ''down'')) (Some [docBar, docFoo, docBar])"
  let ?m = "mockSearchResults ''what foo'' (Inl (Error ''down'')) (Some [docBar, docFoo, docBar])"
  have h: "length ?h = 3" by code_simp
  have m: "length ?m = 1" by code_simp
  note T = fallback_scores[of "''foo bar''" "Error ''down''" "Some [docBar, docFoo, docBar]"]
  note U = fallback_scores[of "''what foo''" "Error ''down''" "Some [docBar, docFoo, docBar]"]
  from T h have "score (?h ! 1) = max (0.9 - 0.1 * real (1::nat)) 0.1" by simp
  then have 1: "score (?h ! 1) = 0.8" by simp
  from U m have "score (?m ! 0) = max (0.9 - 0.1 * real (0::nat)) 0.1" by simp
  then have 2: "score (?m ! 0) = 0.9" by simp
  from h m 1 2 show ?thesis by blast
qed

section \<open>The embedder\<close>

lemma length_addAt: "length (addAt e i v) = length e"
  by (simp add: addAt_def)

lemma length_addHash: "length (addHash weight word hashFunc e) = length e"
  by (simp add: addHash_def Let_def length_addAt)

lemma length_fold_same:
  assumes "\<And>x e. length (f x e) = length e"
  shows "length (fold f xs e) = length e"
  using assms by (induction xs arbitrary: e) simp_all

lemma length_addWord: "length (addWord words n iw e) = length e"
  by (cases iw) (simp add: addWord_def Let_def length_fold_same[where f = "addHash w word" for w word, OF length_addHash])

lemma length_addPosition: "length (addPosition iw e) = length e"
  by (cases iw) (simp add: addPosition_def Let_def length_addAt)

lemma length_l2normalize: "length (l2normalize e) = length e"
  by (simp add: l2normalize_def Let_def split: jsnum.splits)

lemma embed_returns: "\<exists>e. embed text = Inr e \<and> length e = 384"
  by (simp add: embed_def Let_def length_l2normalize length_addAt
      length_fold_same[where f = addPosition, OF length_addPosition]
      length_fold_same[where f = "addWord ws n" for ws n, OF length_addWord])

lemma hashStep_range: "0 \<le> hashStep k h c \<and> hashStep k h c < 2 ^ 31"
proof -
  have "uint (w AND (0x7fffffff :: 32 word)) < 2 ^ 31" for w :: "32 word"
  proof -
    have "w AND 0x7fffffff \<le> 0x7fffffff" by (rule word_and_le1)
    then have "uint (w AND 0x7fffffff) \<le> uint (0x7fffffff :: 32 word)" by (simp add: word_le_def)
    then show ?thesis by simp
  qed
  then show ?thesis by (simp add: hashStep_def)
qed

lemma wordHash_range: "0 \<le> wordHash k word \<and> wordHash k word < 2 ^ 31"
proof -
  have "0 \<le> foldl (hashStep k) h word \<and> foldl (hashStep k) h word < 2 ^ 31"
    if "0 \<le> h \<and> h < 2 ^ 31" for h
    using that
  proof (induction word arbitrary: h)
    case Nil
    then show ?case by simp
  next
    case (Cons c word)
    have "0 \<le> hashStep k h c \<and> hashStep k h c < 2 ^ 31" by (rule hashStep_range)
    then show ?case using Cons.IH by simp
  qed
  then show ?thesis by (simp add: wordHash_def)
qed

text \<open>
  The normalisation does its work on a vector of real numbers whose squares have a
  positive sum: every component is divided by the norm, and the squares of the result
  sum to 1.
\<close>

lemma foldl_squares:
  "foldl (\<lambda>sum val. jsAdd sum (jsMul val val)) (Num a) (map Num rs) = Num (a + (\<Sum>r\<leftarrow>rs. r * r))"
  by (induction rs arbitrary: a) (simp_all add: add.assoc)

lemma l2normalize_unit_norm:
  assumes "0 < (\<Sum>r\<leftarrow>rs. r * r)"
  shows "l2normalize (map Num rs) = map (\<lambda>r. Num (r / sqrt (\<Sum>r\<leftarrow>rs. r * r))) rs
     \<and> (\<Sum>r\<leftarrow>rs. (r / sqrt (\<Sum>r\<leftarrow>rs. r * r)) * (r / sqrt (\<Sum>r\<leftarrow>rs. r * r))) = 1"
proof -
  let ?S = "\<Sum>r\<leftarrow>rs. r * r"
  have n: "jsSqrt (foldl (\<lambda>sum val. jsAdd sum (jsMul val val)) (Num 0) (map Num rs)) = Num (sqrt ?S)"
    using assms by (simp add: foldl_squares)
  have pos: "0 < sqrt ?S" using assms by simp
  have 1: "l2normalize (map Num rs) = map (\<lambda>r. Num (r / sqrt ?S)) rs"
    using pos by (simp add: l2normalize_def n Let_def comp_def)
  have sq: "sqrt ?S * sqrt ?S = ?S" using assms by simp
  have "(r / sqrt ?S) * (r / sqrt ?S) = (r * r) / ?S" for r
  proof -
    have "(r / sqrt ?S) * (r / sqrt ?S) = (r * r) / (sqrt ?S * sqrt ?S)" by simp
    then show ?thesis by (simp only: sq)
  qed
  then have "map (\<lambda>r. (r / sqrt ?S) * (r / sqrt ?S)) rs = map (\<lambda>r. (r * r) / ?S) rs" by simp
  then have "(\<Sum>r\<leftarrow>rs. (r / sqrt ?S) * (r / sqrt ?S)) = (\<Sum>r\<leftarrow>rs. (r * r) / ?S)"
    by (simp only:)
  also have "\<dots> = ?S / ?S"
  proof -
    have "(\<Sum>r\<leftarrow>xs. (r * r) / c) = (\<Sum>r\<leftarrow>xs. r * r) / c" for xs :: "real list" and c
      by (induction xs) (simp_all add: add_divide_distrib)
    then show ?thesis .
  qed
  also have "\<dots> = 1" using assms by simp
  finally show ?thesis using 1 by simp
qed


text \<open>
  Claim C7. The \<open>try\<close> block of \<open>generateEmbedding\<close> always returns, so the random
  fallback of the \<open>catch\<close> block is never used: the vector does not depend on the values
  of \<open>Math.random()\<close>, only on the text, and it has 384 elements.
\<close>

theorem generateEmbedding_deterministic:
  "generateEmbedding random text = generateEmbedding random' text
   \<and> length (generateEmbedding random text) = 384"
proof -
  obtain e where "embed text = Inr e" "length e = 384" using embed_returns by blast
  then show ?thesis by (simp add: generateEmbedding_def)
qed

lemma hi_words: "embeddingWords ''hi'' = []"
  by code_simp

lemma hi_sent: "splitOn isTerminator ''hi'' = [''hi'']"
  by code_simp

text \<open>
  Claim C3. The non-empty text \<open>hi\<close> has no word of more than two characters, so the
  average word length is \<open>0 / 0\<close>: the first component of the vector is \<open>NaN\<close>, the norm is
  \<open>NaN\<close>, the test \<open>norm > 0\<close> fails and the vector is returned as it is. Its norm is not
  near 1 and its first component is not a finite number.
\<close>

theorem generateEmbedding_NaN:
  "generateEmbedding random ''hi'' = NaN # Num 0 # Num (1 / 1000) # replicate 381 (Num 0)"
proof -
  have r: "replicate 384 (Num 0) = Num 0 # Num 0 # Num 0 # Num 0 # replicate 380 (Num 0)"
    by (simp add: numeral_eq_Suc)
  have e: "embed ''hi'' = Inr (l2normalize (NaN # Num 0 # Num (1 / 1000) # Num 0 # replicate 380 (Num 0)))"
    by (simp add: embed_def hi_words hi_sent avgWordLength_def calculateEntropy_def addAt_def r
        del: splitOn.simps)
  have n: "l2normalize (NaN # xs) = NaN # xs" for xs
  proof -
    have "foldl (\<lambda>sum val. jsAdd sum (jsMul val val)) NaN ys = NaN" for ys
      by (induction ys) simp_all
    then show ?thesis by (simp add: l2normalize_def)
  qed
  have "replicate 381 (Num 0) = Num 0 # replicate 380 (Num 0)" by (simp add: numeral_eq_Suc)
  then show ?thesis by (simp add: generateEmbedding_def e n)
qed

section \<open>What the loops of \<open>storeDocument\<close> do to the state\<close>

lemma callNow_frame: "callNow E w = (t, w') \<Longrightarrow> calls w' = calls w \<and> store w' = store w"
  by (auto simp: callNow_def split: prod.splits)

lemma callSleep_frame: "calls (callSleep E ms w) = calls w \<and> store (callSleep E ms w) = store w"
  by (simp add: callSleep_def)

lemma prepareVector_frame:
  assumes "prepareVector E fileName fileType userId n ic (vs, w) = (vs', w')"
  shows "calls w' = calls w \<and> store w' = store w \<and> length vs' = Suc (length vs)"
proof -
  obtain chunkIndex chunk where ic: "ic = (chunkIndex, chunk)" by (cases ic)
  obtain t1 w1 where 1: "callNow E w = (t1, w1)" by (cases "callNow E w")
  obtain t2 w2 where 2: "callNow E w1 = (t2, w2)" by (cases "callNow E w1")
  from assms have "w' = w2" "length vs' = Suc (length vs)"
    by (auto simp: prepareVector_def ic 1 2 Let_def)
  then show ?thesis using callNow_frame[OF 1] callNow_frame[OF 2] by simp
qed

lemma fold_prepareVector_frame:
  assumes "fold (prepareVector E fileName fileType userId n) ics (vs, w) = (vs', w')"
  shows "calls w' = calls w \<and> store w' = store w \<and> length vs' = length vs + length ics"
  using assms
proof (induction ics arbitrary: vs w)
  case Nil
  then show ?case by simp
next
  case (Cons ic ics)
  obtain vs1 w1 where 1: "prepareVector E fileName fileType userId n ic (vs, w) = (vs1, w1)"
    by (cases "prepareVector E fileName fileType userId n ic (vs, w)")
  from Cons.prems have "fold (prepareVector E fileName fileType userId n) ics (vs1, w1) = (vs', w')"
    by (simp add: 1)
  from Cons.IH[OF this] prepareVector_frame[OF 1] show ?case by simp
qed

lemma prepareVectors_frame:
  assumes "prepareVectors E fileName fileType userId chunks i (vs, w) = (vs', w')"
  shows "calls w' = calls w \<and> store w' = store w \<and> length vs' = length vs + (length chunks - i)"
  using assms
proof (induction "length chunks - i" arbitrary: i vs w rule: less_induct)
  case less
  show ?case
  proof (cases "i < length chunks")
    case False
    with less.prems show ?thesis by (simp add: prepareVectors.simps[of _ _ _ _ chunks i])
  next
    case True
    let ?batch = "take 5 (drop i chunks)"
    obtain vs1 w1 where 1:
      "fold (prepareVector E fileName fileType userId (length chunks)) (enumerate i ?batch) (vs, w) = (vs1, w1)"
      by (cases "fold (prepareVector E fileName fileType userId (length chunks)) (enumerate i ?batch) (vs, w)")
    let ?w2 = "if i + 5 < length chunks then callSleep E 100 w1 else w1"
    from less.prems True 1 have rec:
      "prepareVectors E fileName fileType userId chunks (i + 5) (vs1, ?w2) = (vs', w')"
      by (simp add: prepareVectors.simps[of _ _ _ _ chunks i] Let_def)
    have "length chunks - (i + 5) < length chunks - i" using True by simp
    from less.hyps[OF this rec] have
      "calls w' = calls ?w2 \<and> store w' = store ?w2 \<and> length vs' = length vs1 + (length chunks - (i + 5))" .
    moreover have "calls ?w2 = calls w1 \<and> store ?w2 = store w1" by (simp add: callSleep_frame)
    moreover have "calls w1 = calls w \<and> store w1 = store w \<and> length vs1 = length vs + length (enumerate i ?batch)"
      by (rule fold_prepareVector_frame[OF 1])
    moreover have "length (enumerate i ?batch) + (length chunks - (i + 5)) = length chunks - i"
      using True by (simp add: min_def)
    ultimately show ?thesis by simp
  qed
qed

lemma batchesOf_drop:
  "i < length xs \<Longrightarrow> 0 < n \<Longrightarrow>
   batchesOf n (drop i xs) = take n (drop i xs) # batchesOf n (drop (i + n) xs)"
  by (subst batchesOf.simps) (simp add: add.commute)

lemma batchesOf_Nil [simp]: "batchesOf n [] = []"
  by (subst batchesOf.simps) simp

lemma callUpsert_frame:
  "callUpsert E batch w = (res, w') \<Longrightarrow> calls w' = calls w @ [Upsert batch] \<and> store w' = store w"
  by (auto simp: callUpsert_def split: prod.splits)

lemma upsertBatches_calls:
  "calls (upsertBatches E vectors i w) = calls w @ map Upsert (batchesOf 10 (drop i vectors))
   \<and> store (upsertBatches E vectors i w) = store w"
proof (induction "length vectors - i" arbitrary: i w rule: less_induct)
  case less
  show ?case
  proof (cases "i < length vectors")
    case False
    then show ?thesis by (simp add: upsertBatches.simps[of _ vectors i])
  next
    case True
    let ?batch = "take 10 (drop i vectors)"
    obtain res w1 where 1: "callUpsert E ?batch w = (res, w1)" by (cases "callUpsert E ?batch w")
    let ?w2 = "case res of Inr u \<Rightarrow> (if i + 10 < length vectors then callSleep E 200 w1 else w1)
                         | Inl batchError \<Rightarrow> w1"
    have step: "upsertBatches E vectors i w = upsertBatches E vectors (i + 10) ?w2"
      using True 1 by (subst upsertBatches.simps) (simp add: Let_def split: sum.splits)
    have w2: "calls ?w2 = calls w @ [Upsert ?batch] \<and> store ?w2 = store w"
      using callUpsert_frame[OF 1] by (simp add: callSleep_frame split: sum.splits)
    have "length vectors - (i + 10) < length vectors - i" using True by simp
    from less.hyps[OF this, of ?w2] w2 batchesOf_drop[OF True, of 10] show ?thesis
      by (simp add: step)
  qed
qed

lemma concat_batchesOf: "0 < n \<Longrightarrow> concat (batchesOf n xs) = xs"
proof (induction "length xs" arbitrary: xs rule: less_induct)
  case less
  show ?case
  proof (cases "xs = []")
    case True
    then show ?thesis by (subst batchesOf.simps) simp
  next
    case False
    then have "length (drop n xs) < length xs" using less.prems by simp
    from less.hyps[OF this less.prems] show ?thesis
      using False less.prems by (subst batchesOf.simps) simp
  qed
qed

lemma batchesOf_sizes: "b \<in> set (batchesOf n xs) \<Longrightarrow> 0 < length b \<and> length b \<le> n"
proof (induction "length xs" arbitrary: xs rule: less_induct)
  case less
  show ?case
  proof (cases "n = 0 \<or> xs = []")
    case True
    with less.prems show ?thesis by (simp add: batchesOf.simps[of n xs])
  next
    case False
    then have lt: "length (drop n xs) < length xs" by simp
    from less.prems False have "b = take n xs \<or> b \<in> set (batchesOf n (drop n xs))"
      by (simp add: batchesOf.simps[of n xs])
    then show ?thesis
    proof
      assume "b = take n xs"
      then show ?thesis using False by simp
    next
      assume "b \<in> set (batchesOf n (drop n xs))"
      from less.hyps[OF lt this] show ?thesis .
    qed
  qed
qed

lemma callGetIndex_frame:
  "callGetIndex E w = (res, w') \<Longrightarrow> calls w' = calls w @ [GetIndex] \<and> store w' = store w"
  by (auto simp: callGetIndex_def split: prod.splits)

lemma storeDocument_no_key:
  assumes "\<not> truthy (VITE_PINECONE_API_KEY cfg)"
  shows "storeDocument cfg E fileName fileType content userId w =
           (Inl (Error ''Pinecone API key not available - check environment variables''), w)"
  using assms by (simp add: storeDocument_def)

lemma storeDocument_no_index:
  assumes "truthy (VITE_PINECONE_API_KEY cfg)" and "callGetIndex E w = (Inl e, w1)"
  shows "storeDocument cfg E fileName fileType content userId w = (Inl e, w1)"
  using assms by (simp add: storeDocument_def)

lemma storeDocument_no_chunks:
  assumes "truthy (VITE_PINECONE_API_KEY cfg)" and "callGetIndex E w = (Inr u, w1)"
    and "contentChunks content = []"
  shows "storeDocument cfg E fileName fileType content userId w =
           (Inl (Error ''No content chunks to process''), w1)"
  using assms by (simp add: storeDocument_def contentChunks_def)

lemma storeDocument_success:
  assumes key: "truthy (VITE_PINECONE_API_KEY cfg)" and idx: "callGetIndex E w = (Inr u, w1)"
    and chunks: "contentChunks content \<noteq> []"
  shows "fst (storeDocument cfg E fileName fileType content userId w) = Inr ()
     \<and> calls (snd (storeDocument cfg E fileName fileType content userId w)) =
         calls w @ GetIndex # map Upsert (batchesOf 10 (preparedVectors E fileName fileType content userId w))
     \<and> store (snd (storeDocument cfg E fileName fileType content userId w)) = store w
     \<and> length (preparedVectors E fileName fileType content userId w) = length (contentChunks content)"
proof -
  let ?chunks = "contentChunks content"
  obtain vectors w2 where pv:
    "prepareVectors E fileName fileType userId ?chunks 0 ([], w1) = (vectors, w2)"
    by (cases "prepareVectors E fileName fileType userId ?chunks 0 ([], w1)")
  have vs: "preparedVectors E fileName fileType content userId w = vectors"
    by (simp add: preparedVectors_def idx pv)
  from prepareVectors_frame[OF pv] have fr: "calls w2 = calls w1" "store w2 = store w1"
    and len: "length vectors = length ?chunks" by simp_all
  from len chunks have ne: "length vectors \<noteq> 0" by simp
  have sd: "storeDocument cfg E fileName fileType content userId w =
              (Inr (), upsertBatches E vectors 0 w2)"
    using key idx chunks pv ne by (simp add: storeDocument_def contentChunks_def)
  from callGetIndex_frame[OF idx] have gi: "calls w1 = calls w @ [GetIndex]" "store w1 = store w"
    by simp_all
  from upsertBatches_calls[of E vectors 0 w2] have
    "calls (upsertBatches E vectors 0 w2) = calls w2 @ map Upsert (batchesOf 10 vectors)"
    "store (upsertBatches E vectors 0 w2) = store w2" by simp_all
  then show ?thesis using fr gi len by (simp add: sd vs)
qed

lemma nth_batchesOf:
  "0 < n \<Longrightarrow> k < length (batchesOf n xs) \<Longrightarrow> batchesOf n xs ! k = take n (drop (n * k) xs)"
proof (induction k arbitrary: xs)
  case 0
  then have "xs \<noteq> []" by (auto simp: batchesOf.simps[of n xs])
  then show ?case using 0 by (simp add: batchesOf.simps[of n xs])
next
  case (Suc k)
  then have ne: "xs \<noteq> []" by (auto simp: batchesOf.simps[of n xs])
  then have b: "batchesOf n xs = take n xs # batchesOf n (drop n xs)"
    using Suc.prems by (simp add: batchesOf.simps[of n xs])
  with Suc.prems have "k < length (batchesOf n (drop n xs))" by simp
  from Suc.IH[OF Suc.prems(1) this] show ?case by (simp add: b add.commute)
qed

lemma batchesOf_nonempty: "0 < n \<Longrightarrow> xs \<noteq> [] \<Longrightarrow> batchesOf n xs \<noteq> []"
  by (simp add: batchesOf.simps[of n xs])

lemma batchesOf_single:
  assumes "0 < length xs" and "length xs \<le> n"
  shows "batchesOf n xs = [xs]"
proof -
  from assms have "0 < n" by linarith
  moreover from assms(1) have "xs \<noteq> []" by auto
  ultimately have "0 < n" "xs \<noteq> []" by simp_all
  with assms(2) show ?thesis by (subst batchesOf.simps) simp
qed

lemma hi_chunks: "contentChunks ''hi'' = [''hi.'']"
  by code_simp

lemma exampleConfig_key: "truthy (VITE_PINECONE_API_KEY exampleConfig)"
  by (simp add: exampleConfig_def truthy_def)

lemma exampleEnv_index: "fst (callGetIndex (exampleEnv True q u) emptyWorld) = Inr ()"
  by (simp add: callGetIndex_def exampleEnv_def)

section \<open>The upsert loop of \<open>storeDocument\<close>\<close>

text \<open>
  Claim C9. The upsert loop sends the prepared vectors in consecutive batches of 10
  (batch \<open>k\<close> is \<open>vectors.slice(10 * k, 10 * k + 10)\<close>), one \<open>index.upsert\<close> call for each
  batch, whatever the outcome of the calls before it: this holds for every environment,
  so also for one whose upserts fail. When the API key is set, the index is obtained and
  the content gives at least one chunk, \<open>storeDocument\<close> returns without error, has made
  exactly these upsert calls after \<open>getIndex\<close>, and has prepared one vector for each chunk.
\<close>

theorem storeDocument_upsert_batches:
  "(\<forall>vectors w0. calls (upsertBatches E vectors 0 w0) =
        calls w0 @ map Upsert (batchesOf 10 vectors))
   \<and> (truthy (VITE_PINECONE_API_KEY cfg) \<and> fst (callGetIndex E w) = Inr ()
        \<and> contentChunks content \<noteq> [] \<longrightarrow>
      fst (storeDocument cfg E fileName fileType content userId w) = Inr ()
      \<and> calls (snd (storeDocument cfg E fileName fileType content userId w)) =
          calls w @ GetIndex # map Upsert (batchesOf 10 (preparedVectors E fileName fileType content userId w))
      \<and> concat (batchesOf 10 (preparedVectors E fileName fileType content userId w)) =
          preparedVectors E fileName fileType content userId w
      \<and> (\<forall>k < length (batchesOf 10 (preparedVectors E fileName fileType content userId w)).
            batchesOf 10 (preparedVectors E fileName fileType content userId w) ! k =
            take 10 (drop (10 * k) (preparedVectors E fileName fileType content userId w)))
      \<and> length (preparedVectors E fileName fileType content userId w) = length (contentChunks content))"
proof (intro conjI allI impI)
  fix vectors and w0 :: "'a world"
  show "calls (upsertBatches E vectors 0 w0) = calls w0 @ map Upsert (batchesOf 10 vectors)"
    using upsertBatches_calls[of E vectors 0 w0] by simp
next
  assume a: "truthy (VITE_PINECONE_API_KEY cfg) \<and> fst (callGetIndex E w) = Inr ()
        \<and> contentChunks content \<noteq> []"
  then obtain w1 where idx: "callGetIndex E w = (Inr (), w1)"
    by (cases "callGetIndex E w") auto
  note S = storeDocument_success[OF _ idx, of cfg content fileName fileType userId]
  from a S show "fst (storeDocument cfg E fileName fileType content userId w) = Inr ()" by blast
  from a S show "calls (snd (storeDocument cfg E fileName fileType content userId w)) =
          calls w @ GetIndex # map Upsert (batchesOf 10 (preparedVectors E fileName fileType content userId w))"
    by blast
  show "concat (batchesOf 10 (preparedVectors E fileName fileType content userId w)) =
          preparedVectors E fileName fileType content userId w"
    by (simp add: concat_batchesOf)
  from a S show "length (preparedVectors E fileName fileType content userId w) = length (contentChunks content)"
    by blast
next
  fix k
  assume "k < length (batchesOf 10 (preparedVectors E fileName fileType content userId w))"
  then show "batchesOf 10 (preparedVectors E fileName fileType content userId w) ! k =
            take 10 (drop (10 * k) (preparedVectors E fileName fileType content userId w))"
    by (simp add: nth_batchesOf)
qed

theorem storeDocument_upsert_batches_witness:
  "fst (index_upsert (exampleEnv True True False) [exampleVector] 0) = Inl (Error ''upsert failed'')
   \<and> calls (upsertBatches (exampleEnv True True False) (replicate 11 exampleVector) 0 emptyWorld) =
       [Upsert (replicate 10 exampleVector), Upsert [exampleVector]]
   \<and> fst (storeDocument exampleConfig (exampleEnv True True False) ''notes.txt'' ''text/plain''
            ''hi'' (Some ''current-user'') emptyWorld) = Inr ()"
proof -
  note T = storeDocument_upsert_batches[of "exampleEnv True True False" exampleConfig emptyWorld
      "''hi''" "''notes.txt''" "''text/plain''" "Some ''current-user''"]
  have 1: "fst (index_upsert (exampleEnv True True False) [exampleVector] 0) = Inl (Error ''upsert failed'')"
    by (simp add: exampleEnv_def)
  have b: "batchesOf 10 (replicate 11 exampleVector) = [replicate 10 exampleVector, [exampleVector]]"
    by code_simp
  from T have "calls (upsertBatches (exampleEnv True True False) (replicate 11 exampleVector) 0 emptyWorld) =
       calls emptyWorld @ map Upsert (batchesOf 10 (replicate 11 exampleVector))"
    by blast
  then have 2: "calls (upsertBatches (exampleEnv True True False) (replicate 11 exampleVector) 0 emptyWorld) =
       [Upsert (replicate 10 exampleVector), Upsert [exampleVector]]"
    by (simp add: b emptyWorld_def)
  from T exampleConfig_key exampleEnv_index[of True False] hi_chunks
  have 3: "fst (storeDocument exampleConfig (exampleEnv True True False) ''notes.txt'' ''text/plain''
            ''hi'' (Some ''current-user'') emptyWorld) = Inr ()"
    by simp
  from 1 2 3 show ?thesis by blast
qed

section \<open>\<open>storeDocument\<close> and short content\<close>

lemma storeDocument_calls:
  "calls (snd (storeDocument cfg E fileName fileType content userId w)) =
     calls w @
       (if \<not> truthy (VITE_PINECONE_API_KEY cfg) then []
        else GetIndex #
          (if fst (storeDocument cfg E fileName fileType content userId w) = Inr ()
           then map Upsert (batchesOf 10 (preparedVectors E fileName fileType content userId w))
           else []))
   \<and> store (snd (storeDocument cfg E fileName fileType content userId w)) = store w
   \<and> (fst (storeDocument cfg E fileName fileType content userId w) = Inr () \<longleftrightarrow>
        truthy (VITE_PINECONE_API_KEY cfg) \<and> fst (callGetIndex E w) = Inr ()
        \<and> contentChunks content \<noteq> [])
   \<and> (fst (storeDocument cfg E fileName fileType content userId w) = Inr () \<longrightarrow>
        batchesOf 10 (preparedVectors E fileName fileType content userId w) \<noteq> [])"
proof (cases "truthy (VITE_PINECONE_API_KEY cfg)")
  case False
  then show ?thesis by (simp add: storeDocument_no_key)
next
  case key: True
  obtain res w1 where idx: "callGetIndex E w = (res, w1)" by (cases "callGetIndex E w")
  note fr = callGetIndex_frame[OF idx]
  show ?thesis
  proof (cases res)
    case (Inl e)
    with idx have "callGetIndex E w = (Inl e, w1)" by simp
    from storeDocument_no_index[OF key this] fr key show ?thesis by (simp add: idx Inl)
  next
    case (Inr u)
    with idx have idx': "callGetIndex E w = (Inr u, w1)" by simp
    show ?thesis
    proof (cases "contentChunks content = []")
      case True
      from storeDocument_no_chunks[OF key idx' True] fr key True show ?thesis by simp
    next
      case False
      from storeDocument_success[OF key idx' False] have S:
        "fst (storeDocument cfg E fileName fileType content userId w) = Inr ()"
        "calls (snd (storeDocument cfg E fileName fileType content userId w)) =
           calls w @ GetIndex # map Upsert (batchesOf 10 (preparedVectors E fileName fileType content userId w))"
        "store (snd (storeDocument cfg E fileName fileType content userId w)) = store w"
        "length (preparedVectors E fileName fileType content userId w) = length (contentChunks content)"
        by blast+
      from S(4) False have "preparedVectors E fileName fileType content userId w \<noteq> []" by auto
      then have "batchesOf 10 (preparedVectors E fileName fileType content userId w) \<noteq> []"
        by (simp add: batchesOf_nonempty)
      with S key False idx' show ?thesis by simp
    qed
  qed
qed

lemma storeProcessedFile_short:
  "length (cleanContentOfFile content) \<le> 50 \<Longrightarrow>
   storeProcessedFile cfg E storeInPinecone fileName fileType content hasError w = (NotAttempted, w)"
  by (simp add: storeProcessedFile_def Let_def)

lemma storeProcessedFile_long:
  "storeInPinecone \<Longrightarrow> content \<noteq> [] \<Longrightarrow> \<not> hasError \<Longrightarrow> 50 < length (cleanContentOfFile content) \<Longrightarrow>
   fst (storeProcessedFile cfg E storeInPinecone fileName fileType content hasError w) \<noteq> NotAttempted"
  by (simp add: storeProcessedFile_def Let_def split: prod.splits sum.splits)

lemma hi_clean: "cleanContent ''hi'' = ''hi''"
  by code_simp

lemma hi_clean_file: "cleanContentOfFile ''hi'' = ''hi''"
  by code_simp

text \<open>
  Claim C1, as the code has it. \<open>storeDocument\<close> has no guard on the length of the cleaned
  content. It returns without error exactly when the API key is set, the index is
  obtained and the cleaned content gives at least one chunk, and then it has sent at
  least one batch to \<open>index.upsert\<close>; otherwise it throws, having made no upsert. It never
  writes to the local store. The guard on short content is in its caller \<open>processFile\<close>:
  when the content, cleaned there, has at most 50 characters, neither \<open>storeDocument\<close> nor
  \<open>storeDocumentLocal\<close> is called and the state is unchanged; when it is longer (and
  storing is enabled) a store is attempted.
\<close>

theorem storeDocument_no_length_guard:
  "(fst (storeDocument cfg E fileName fileType content userId w) = Inr () \<longleftrightarrow>
        truthy (VITE_PINECONE_API_KEY cfg) \<and> fst (callGetIndex E w) = Inr ()
        \<and> contentChunks content \<noteq> [])
   \<and> calls (snd (storeDocument cfg E fileName fileType content userId w)) =
       calls w @
         (if \<not> truthy (VITE_PINECONE_API_KEY cfg) then []
          else GetIndex #
            (if fst (storeDocument cfg E fileName fileType content userId w) = Inr ()
             then map Upsert (batchesOf 10 (preparedVectors E fileName fileType content userId w))
             else []))
   \<and> (fst (storeDocument cfg E fileName fileType content userId w) = Inr () \<longrightarrow>
        batchesOf 10 (preparedVectors E fileName fileType content userId w) \<noteq> [])
   \<and> store (snd (storeDocument cfg E fileName fileType content userId w)) = store w
   \<and> (length (cleanContentOfFile content) \<le> 50 \<longrightarrow>
        storeProcessedFile cfg E storeInPinecone fileName fileType content hasError w
          = (NotAttempted, w))
   \<and> (storeInPinecone \<and> content \<noteq> [] \<and> \<not> hasError \<and> 50 < length (cleanContentOfFile content) \<longrightarrow>
        fst (storeProcessedFile cfg E storeInPinecone fileName fileType content hasError w)
          \<noteq> NotAttempted)"
  using storeDocument_calls[of cfg E fileName fileType content userId w]
    storeProcessedFile_short[of content cfg E storeInPinecone fileName fileType hasError w]
    storeProcessedFile_long[of storeInPinecone content hasError cfg E fileName fileType w]
  by blast

lemma long_clean_file: "length (cleanContentOfFile (replicate 60 (CHR ''a''))) = 60"
  by code_simp

theorem storeDocument_no_length_guard_witness:
  "length (cleanContentOfFile ''hi'') \<le> 50
   \<and> storeProcessedFile exampleConfig (exampleEnv True True True) True ''notes.txt'' ''text/plain''
        ''hi'' False emptyWorld = (NotAttempted, emptyWorld)
   \<and> fst (storeDocument exampleConfig (exampleEnv True True True) ''notes.txt'' ''text/plain''
        ''hi'' (Some ''current-user'') emptyWorld) = Inr ()
   \<and> 50 < length (cleanContentOfFile (replicate 60 (CHR ''a'')))
   \<and> fst (storeProcessedFile exampleConfig (exampleEnv True True True) True ''notes.txt''
        ''text/plain'' (replicate 60 (CHR ''a'')) False emptyWorld) \<noteq> NotAttempted"
proof -
  note T = storeDocument_no_length_guard[of exampleConfig "exampleEnv True True True" "''notes.txt''"
      "''text/plain''" "''hi''" "Some ''current-user''" emptyWorld True False]
  note U = storeDocument_no_length_guard[of exampleConfig "exampleEnv True True True" "''notes.txt''"
      "''text/plain''" "replicate 60 (CHR ''a'')" "Some ''current-user''" emptyWorld True False]
  have 1: "length (cleanContentOfFile ''hi'') \<le> 50" by (simp add: hi_clean_file)
  with T have 2: "storeProcessedFile exampleConfig (exampleEnv True True True) True ''notes.txt''
        ''text/plain'' ''hi'' False emptyWorld = (NotAttempted, emptyWorld)"
    by blast
  from T exampleConfig_key exampleEnv_index[of True True] hi_chunks
  have 3: "fst (storeDocument exampleConfig (exampleEnv True True True) ''notes.txt'' ''text/plain''
        ''hi'' (Some ''current-user'') emptyWorld) = Inr ()"
    by simp
  have 4: "50 < length (cleanContentOfFile (replicate 60 (CHR ''a'')))"
    by (simp add: long_clean_file)
  have "replicate 60 (CHR ''a'') \<noteq> []" by simp
  with U 4 have 5: "fst (storeProcessedFile exampleConfig (exampleEnv True True True) True ''notes.txt''
        ''text/plain'' (replicate 60 (CHR ''a'')) False emptyWorld) \<noteq> NotAttempted"
    by blast
  from 1 2 3 4 5 show ?thesis by blast
qed

text \<open>
  Claim C1 as stated fails: for the content \<open>hi\<close>, whose cleaned form has 2 characters,
  \<open>storeDocument\<close> returns without error after one persistence call, the upsert of the
  vector of the chunk \<open>hi.\<close>.
\<close>

theorem storeDocument_upserts_short_content:
  "length (cleanContent ''hi'') \<le> 50
   \<and> fst (storeDocument exampleConfig (exampleEnv True True True) ''notes.txt'' ''text/plain''
        ''hi'' (Some ''current-user'') emptyWorld) = Inr ()
   \<and> length (filter isPersistence
        (calls (snd (storeDocument exampleConfig (exampleEnv True True True) ''notes.txt''
           ''text/plain'' ''hi'' (Some ''current-user'') emptyWorld)))) = 1"
proof -
  let ?E = "exampleEnv True True True"
  let ?r = "storeDocument exampleConfig ?E ''notes.txt'' ''text/plain'' ''hi'' (Some ''current-user'') emptyWorld"
  let ?pv = "preparedVectors ?E ''notes.txt'' ''text/plain'' ''hi'' (Some ''current-user'') emptyWorld"
  obtain w1 where idx: "callGetIndex ?E emptyWorld = (Inr (), w1)"
    using exampleEnv_index[of True True] by (cases "callGetIndex ?E emptyWorld") auto
  have ch: "contentChunks ''hi'' \<noteq> []" by (simp add: hi_chunks)
  from storeDocument_success[OF exampleConfig_key idx ch, of "''notes.txt''" "''text/plain''" "Some ''current-user''"]
  have r: "fst ?r = Inr ()"
    and c: "calls (snd ?r) = calls emptyWorld @ GetIndex # map Upsert (batchesOf 10 ?pv)"
    and l: "length ?pv = length (contentChunks ''hi'')"
    by blast+
  from l have "batchesOf 10 ?pv = [?pv]" by (simp add: hi_chunks batchesOf_single)
  with c have "calls (snd ?r) = [GetIndex, Upsert ?pv]" by (simp add: emptyWorld_def)
  then have "length (filter isPersistence (calls (snd ?r))) = 1" by simp
  moreover have "length (cleanContent ''hi'') \<le> 50" by (simp add: hi_clean)
  ultimately show ?thesis using r by blast
qed

section \<open>Clearing and listing\<close>

lemma callQuery_frame:
  "callQuery E request w = (res, w') \<Longrightarrow> calls w' = calls w @ [Query request] \<and> store w' = store w"
  by (auto simp: callQuery_def split: prod.splits)

lemma callDeleteMany_frame:
  "callDeleteMany E batch w = (res, w') \<Longrightarrow> store w' = store w"
  by (auto simp: callDeleteMany_def split: prod.splits)

lemma deleteBatches_store: "store (deleteBatches E vectorIds i w) = store w"
proof (induction "length vectorIds - i" arbitrary: i w rule: less_induct)
  case less
  show ?case
  proof (cases "i < length vectorIds")
    case False
    then show ?thesis by (simp add: deleteBatches.simps[of _ vectorIds i])
  next
    case True
    let ?batch = "take 100 (drop i vectorIds)"
    obtain res w1 where 1: "callDeleteMany E ?batch w = (res, w1)"
      by (cases "callDeleteMany E ?batch w")
    let ?w2 = "case res of Inr u \<Rightarrow> (if i + 100 < length vectorIds then callSleep E 200 w1 else w1)
                         | Inl batchError \<Rightarrow> w1"
    have step: "deleteBatches E vectorIds i w = deleteBatches E vectorIds (i + 100) ?w2"
      using True 1 by (subst deleteBatches.simps) (simp add: Let_def split: sum.splits)
    have "store ?w2 = store w"
      using callDeleteMany_frame[OF 1] by (simp add: callSleep_frame split: sum.splits)
    moreover have "length vectorIds - (i + 100) < length vectorIds - i" using True by simp
    ultimately show ?thesis using less.hyps[of "i + 100" ?w2] by (simp add: step)
  qed
qed

lemma getUserDocuments_try_store: "store (snd (getUserDocuments_try E userId w)) = store w"
proof -
  obtain r1 w1 where 1: "callGetIndex E w = (r1, w1)" by (cases "callGetIndex E w")
  obtain r2 w2 where 2: "callQuery E (broadQuery 100 userId) w1 = (r2, w2)"
    by (cases "callQuery E (broadQuery 100 userId) w1")
  from callGetIndex_frame[OF 1] callQuery_frame[OF 2] show ?thesis
    by (simp add: getUserDocuments_try_def 1 2 split: sum.splits)
qed

lemma getUserDocuments_returns:
  "\<exists>docs. fst (getUserDocuments E userId w) = Inr docs"
  by (cases "getUserDocuments_try E userId w")
     (auto simp: getUserDocuments_def split: sum.splits)

lemma getUserDocuments_caught:
  "fst (getUserDocuments_try E userId w) = Inl e \<Longrightarrow> fst (getUserDocuments E userId w) = Inr []"
  by (cases "getUserDocuments_try E userId w")
     (auto simp: getUserDocuments_def split: sum.splits)

lemma getUserDocuments_store: "store (snd (getUserDocuments E userId w)) = store w"
  using getUserDocuments_try_store[of E userId w]
  by (cases "getUserDocuments_try E userId w")
     (auto simp: getUserDocuments_def split: sum.splits)

lemma clearUserDocuments_store: "store (snd (clearUserDocuments E userId w)) = store w"
proof -
  obtain r1 w1 where 1: "callGetIndex E w = (r1, w1)" by (cases "callGetIndex E w")
  obtain r2 w2 where 2: "getUserDocuments E userId w1 = (r2, w2)"
    by (cases "getUserDocuments E userId w1")
  obtain r3 w3 where 3: "callQuery E (broadQuery 10000 userId) w2 = (r3, w3)"
    by (cases "callQuery E (broadQuery 10000 userId) w2")
  have s1: "store w1 = store w" using callGetIndex_frame[OF 1] by simp
  have s2: "store w2 = store w1" using getUserDocuments_store[of E userId w1] by (simp add: 2)
  have s3: "store w3 = store w2" using callQuery_frame[OF 3] by simp
  show ?thesis
    by (simp add: clearUserDocuments_def 1 2 3 s1 s2 s3 deleteBatches_store Let_def
        split: sum.splits)
qed

lemma clearAllDocuments_store:
  "store (snd (clearAllDocuments E w)) = (if fst (clearAllDocuments E w) = Inr () then None else store w)"
  by (auto simp: clearAllDocuments_def removeItem_def split: prod.splits sum.splits)

lemma loadFromLocal_method: "storageMethod (fst (loadFromLocal E err st w)) = ''local''"
  by (cases err) (simp add: loadFromLocal_def Let_def split: prod.splits)

text \<open>
  Claim C2, as the code has it. \<open>clearAllStoredDocuments\<close> clears the local store first.
  It returns without error exactly when this local clearing and the remote clearing
  both succeed; every error of its \<open>try\<close> block is thrown again after the second attempt
  at the local store. When the local clearing succeeds the local collection is empty at
  the end, also when the remote path throws, and the operation then still fails with
  the remote error.
\<close>

theorem clearAllStoredDocuments_outcome:
  "(fst (clearAllStoredDocuments E userId w) = Inr () \<longleftrightarrow>
      fst (clearAllDocuments E w) = Inr ()
      \<and> fst (clearUserDocuments E userId (snd (clearAllDocuments E w))) = Inr ())
   \<and> (\<forall>e. fst (clearAllStoredDocuments_try E userId w) = Inl e \<longrightarrow>
          fst (clearAllStoredDocuments E userId w) = Inl e)
   \<and> (fst (clearAllDocuments E w) = Inr () \<longrightarrow>
          store (snd (clearAllStoredDocuments E userId w)) = None)
   \<and> (\<forall>e. fst (clearAllDocuments E w) = Inr ()
          \<and> fst (clearUserDocuments E userId (snd (clearAllDocuments E w))) = Inl e \<longrightarrow>
          fst (clearAllStoredDocuments E userId w) = Inl e
          \<and> store (snd (clearAllStoredDocuments E userId w)) = None)"
proof -
  obtain r1 w1 where 1: "clearAllDocuments E w = (r1, w1)" by (cases "clearAllDocuments E w")
  obtain r2 w2 where 2: "clearUserDocuments E userId w1 = (r2, w2)"
    by (cases "clearUserDocuments E userId w1")
  have tr: "clearAllStoredDocuments_try E userId w =
               (case r1 of Inl e \<Rightarrow> (Inl e, w1) | Inr u \<Rightarrow> (r2, w2))"
    by (simp add: clearAllStoredDocuments_try_def 1 2 split: sum.splits)
  obtain r3 w3 where 3: "clearAllStoredDocuments_try E userId w = (r3, w3)"
    by (cases "clearAllStoredDocuments_try E userId w")
  obtain r4 w4 where 4: "clearAllDocuments E w3 = (r4, w4)" by (cases "clearAllDocuments E w3")
  have res: "fst (clearAllStoredDocuments E userId w) = r3"
    by (cases r3; cases r4) (simp_all add: clearAllStoredDocuments_def 3 4)
  have fin: "snd (clearAllStoredDocuments E userId w) = (case r3 of Inr u \<Rightarrow> w3 | Inl e \<Rightarrow> w4)"
    by (cases r3; cases r4) (simp_all add: clearAllStoredDocuments_def 3 4)
  have A: "fst (clearAllStoredDocuments E userId w) = Inr () \<longleftrightarrow> r1 = Inr () \<and> r2 = Inr ()"
    using tr 3 res by (cases r1; cases r2) auto
  have B: "fst (clearAllStoredDocuments E userId w) = Inl e" if "r3 = Inl e" for e
    using that res by simp
  have C: "store (snd (clearAllStoredDocuments E userId w)) = None" if ok: "r1 = Inr ()"
  proof -
    from ok clearAllDocuments_store[of E w] have "store w1 = None" by (simp add: 1)
    moreover have "store w2 = store w1" using clearUserDocuments_store[of E userId w1] by (simp add: 2)
    moreover have "w3 = w2" using tr 3 ok by simp
    ultimately have w3: "store w3 = None" by simp
    have "store w4 = None" using clearAllDocuments_store[of E w3] w3 by (simp add: 4)
    with w3 show ?thesis by (simp add: fin split: sum.splits)
  qed
  have D: "fst (clearAllStoredDocuments E userId w) = Inl e" if "r1 = Inr ()" "r2 = Inl e" for e
    using that tr 3 res by simp
  from A B C D show ?thesis by (simp add: 1 2 3)
qed

theorem clearAllStoredDocuments_outcome_witness:
  "fst (clearAllStoredDocuments (exampleEnv True True True) (Some ''current-user'') worldWithDocs) = Inr ()
   \<and> store (snd (clearAllStoredDocuments (exampleEnv True True True) (Some ''current-user'') worldWithDocs)) = None
   \<and> fst (clearUserDocuments (exampleEnv False True True) (Some ''current-user'')
          (snd (clearAllDocuments (exampleEnv False True True) worldWithDocs))) = Inl (Error ''index unreachable'')
   \<and> fst (clearAllStoredDocuments (exampleEnv False True True) (Some ''current-user'') worldWithDocs)
          = Inl (Error ''index unreachable'')"
proof -
  note T = clearAllStoredDocuments_outcome[of "exampleEnv True True True" "Some ''current-user''" worldWithDocs]
  note U = clearAllStoredDocuments_outcome[of "exampleEnv False True True" "Some ''current-user''" worldWithDocs]
  have 1: "clearAllDocuments (exampleEnv i True True) worldWithDocs =
             (Inr (), \<lparr>env = 0, store = None, calls = [RemoveItem]\<rparr>)" for i
    by (simp add: clearAllDocuments_def removeItem_def exampleEnv_def worldWithDocs_def)
  have 2: "fst (clearUserDocuments (exampleEnv True True True) (Some ''current-user'')
             \<lparr>env = 0, store = None, calls = [RemoveItem]\<rparr>) = Inr ()"
    by (simp add: clearUserDocuments_def callGetIndex_def getUserDocuments_def
        getUserDocuments_try_def callQuery_def exampleEnv_def)
  have 3: "fst (clearUserDocuments (exampleEnv False True True) (Some ''current-user'')
             \<lparr>env = 0, store = None, calls = [RemoveItem]\<rparr>) = Inl (Error ''index unreachable'')"
    by (simp add: clearUserDocuments_def callGetIndex_def exampleEnv_def)
  from T 1[of True] 2
  have a: "fst (clearAllStoredDocuments (exampleEnv True True True) (Some ''current-user'') worldWithDocs) = Inr ()
     \<and> store (snd (clearAllStoredDocuments (exampleEnv True True True) (Some ''current-user'') worldWithDocs)) = None"
    by simp
  from U 1[of False] 3
  have b: "fst (clearAllStoredDocuments (exampleEnv False True True) (Some ''current-user'') worldWithDocs)
          = Inl (Error ''index unreachable'')"
    by simp
  from a b 3 1[of False] show ?thesis by simp
qed

text \<open>
  Claim C2 as stated fails: with an index that cannot be reached and a local storage that
  works, the local clearing succeeds and the local collection is empty at the end, yet
  the operation signals the failure of the remote path.
\<close>

theorem clearAllStoredDocuments_fails_though_local_cleared:
  "fst (clearAllDocuments (exampleEnv False True True) worldWithDocs) = Inr ()
   \<and> store (snd (clearAllStoredDocuments (exampleEnv False True True) (Some ''current-user'') worldWithDocs)) = None
   \<and> fst (clearAllStoredDocuments (exampleEnv False True True) (Some ''current-user'') worldWithDocs)
       = Inl (Error ''index unreachable'')"
  by (simp add: clearAllStoredDocuments_def clearAllStoredDocuments_try_def clearAllDocuments_def
      removeItem_def clearUserDocuments_def callGetIndex_def exampleEnv_def worldWithDocs_def)


text \<open>
  Claim C10. \<open>getUserDocuments\<close> always returns a list: when its \<open>try\<close> block throws, and so
  when the remote query fails, it returns the empty list. In \<open>loadUserDocuments\<close> the
  local list is used exactly when the API key or the index name is missing; with both
  set, the list is the one \<open>getUserDocuments\<close> returned, the storage method is
  \<open>pinecone\<close> and the local store is left as it is.
\<close>

theorem getUserDocuments_never_throws:
  "(\<exists>docs. fst (getUserDocuments E userId w) = Inr docs)
   \<and> (\<forall>e. fst (getUserDocuments_try E userId w) = Inl e \<longrightarrow>
          fst (getUserDocuments E userId w) = Inr [])
   \<and> (\<forall>e. fst (callGetIndex E w) = Inr ()
          \<and> fst (callQuery E (broadQuery 100 userId) (snd (callGetIndex E w))) = Inl e \<longrightarrow>
          fst (getUserDocuments E userId w) = Inr [])
   \<and> (storageMethod (fst (loadUserDocuments cfg E st w)) = ''local'' \<longleftrightarrow>
          \<not> truthy (VITE_PINECONE_API_KEY cfg) \<or> \<not> truthy (VITE_PINECONE_INDEX_NAME cfg))
   \<and> (truthy (VITE_PINECONE_API_KEY cfg) \<and> truthy (VITE_PINECONE_INDEX_NAME cfg) \<longrightarrow>
          storageMethod (fst (loadUserDocuments cfg E st w)) = ''pinecone''
          \<and> Inr (documents (fst (loadUserDocuments cfg E st w)))
               = fst (getUserDocuments E (Some ''current-user'') w)
          \<and> store (snd (loadUserDocuments cfg E st w)) = store w)"
proof -
  have A: "\<exists>docs. fst (getUserDocuments E userId w) = Inr docs"
    by (rule getUserDocuments_returns)
  have B: "fst (getUserDocuments E userId w) = Inr []"
    if "fst (getUserDocuments_try E userId w) = Inl e" for e
    using that by (rule getUserDocuments_caught)
  have C: "fst (getUserDocuments E userId w) = Inr []"
    if h1: "fst (callGetIndex E w) = Inr ()"
      and h2: "fst (callQuery E (broadQuery 100 userId) (snd (callGetIndex E w))) = Inl e" for e
  proof -
    obtain w1 where 1: "callGetIndex E w = (Inr (), w1)"
      using h1 by (cases "callGetIndex E w") auto
    obtain w2 where 2: "callQuery E (broadQuery 100 userId) w1 = (Inl e, w2)"
      using h2 1 by (cases "callQuery E (broadQuery 100 userId) w1") auto
    have "fst (getUserDocuments_try E userId w) = Inl e"
      by (simp add: getUserDocuments_try_def 1 2)
    then show ?thesis by (rule getUserDocuments_caught)
  qed
  obtain docs w1 where g: "getUserDocuments E (Some ''current-user'') w = (Inr docs, w1)"
    using getUserDocuments_returns[of E "Some ''current-user''" w]
    by (cases "getUserDocuments E (Some ''current-user'') w") auto
  have w1: "store w1 = store w"
    using getUserDocuments_store[of E "Some ''current-user''" w] by (simp add: g)
  have D: "storageMethod (fst (loadUserDocuments cfg E st w)) = ''local''"
    if "\<not> truthy (VITE_PINECONE_API_KEY cfg) \<or> \<not> truthy (VITE_PINECONE_INDEX_NAME cfg)"
    using that by (auto simp: loadUserDocuments_def Let_def loadFromLocal_method)
  have F: "storageMethod (fst (loadUserDocuments cfg E st w)) = ''pinecone''
          \<and> Inr (documents (fst (loadUserDocuments cfg E st w)))
               = fst (getUserDocuments E (Some ''current-user'') w)
          \<and> store (snd (loadUserDocuments cfg E st w)) = store w"
    if "truthy (VITE_PINECONE_API_KEY cfg) \<and> truthy (VITE_PINECONE_INDEX_NAME cfg)"
    using that by (simp add: loadUserDocuments_def Let_def g w1)
  have G: "storageMethod (fst (loadUserDocuments cfg E st w)) = ''local'' \<longleftrightarrow>
          \<not> truthy (VITE_PINECONE_API_KEY cfg) \<or> \<not> truthy (VITE_PINECONE_INDEX_NAME cfg)"
    using D F by auto
  from A B C G F show ?thesis by blast
qed

theorem getUserDocuments_never_throws_witness:
  "fst (callQuery (exampleEnv True False True) (broadQuery 100 (Some ''current-user''))
          (snd (callGetIndex (exampleEnv True False True) worldWithDocs))) = Inl (Error ''query failed'')
   \<and> fst (getUserDocuments (exampleEnv True False True) (Some ''current-user'') worldWithDocs) = Inr []
   \<and> storageMethod (fst (loadUserDocuments exampleConfig (exampleEnv True False True)
          initialManagerState worldWithDocs)) = ''pinecone''
   \<and> documents (fst (loadUserDocuments exampleConfig (exampleEnv True False True)
          initialManagerState worldWithDocs)) = []
   \<and> storageMethod (fst (loadUserDocuments
          \<lparr>VITE_PINECONE_API_KEY = None, VITE_PINECONE_INDEX_NAME = Some ''pulse-documents''\<rparr>
          (exampleEnv True True True) initialManagerState worldWithDocs)) = ''local''"
proof -
  note T = getUserDocuments_never_throws[of "exampleEnv True False True" "Some ''current-user''"
      worldWithDocs exampleConfig initialManagerState]
  note U = getUserDocuments_never_throws[of "exampleEnv True True True" "Some ''current-user''"
      worldWithDocs "\<lparr>VITE_PINECONE_API_KEY = None, VITE_PINECONE_INDEX_NAME = Some ''pulse-documents''\<rparr>"
      initialManagerState]
  have 1: "fst (callGetIndex (exampleEnv True False True) worldWithDocs) = Inr ()"
    by (simp add: callGetIndex_def exampleEnv_def)
  have 2: "fst (callQuery (exampleEnv True False True) (broadQuery 100 (Some ''current-user''))
          (snd (callGetIndex (exampleEnv True False True) worldWithDocs))) = Inl (Error ''query failed'')"
    by (simp add: callQuery_def callGetIndex_def exampleEnv_def)
  have 3: "truthy (VITE_PINECONE_API_KEY exampleConfig) \<and> truthy (VITE_PINECONE_INDEX_NAME exampleConfig)"
    by (simp add: exampleConfig_def truthy_def)
  from T 1 2 have 4: "fst (getUserDocuments (exampleEnv True False True) (Some ''current-user'') worldWithDocs) = Inr []"
    by blast
  from T 3 have 5: "storageMethod (fst (loadUserDocuments exampleConfig (exampleEnv True False True)
          initialManagerState worldWithDocs)) = ''pinecone''
     \<and> Inr (documents (fst (loadUserDocuments exampleConfig (exampleEnv True False True)
          initialManagerState worldWithDocs)))
          = fst (getUserDocuments (exampleEnv True False True) (Some ''current-user'') worldWithDocs)"
    by blast
  have "\<not> truthy (VITE_PINECONE_API_KEY
          \<lparr>VITE_PINECONE_API_KEY = None, VITE_PINECONE_INDEX_NAME = Some ''pulse-documents''\<rparr>)"
    by (simp add: truthy_def)
  with U have 6: "storageMethod (fst (loadUserDocuments
          \<lparr>VITE_PINECONE_API_KEY = None, VITE_PINECONE_INDEX_NAME = Some ''pulse-documents''\<rparr>
          (exampleEnv True True True) initialManagerState worldWithDocs)) = ''local''"
    by blast
  from 2 4 5 6 show ?thesis by simp
qed

end
